theory Spec2Isabelle
  imports Main "HOL-Library.Word"
begin

section \<open>JavaScript strings\<close>

text \<open>
  A JavaScript string is a sequence of UTF-16 code units. The text the flow reads from the
  page is kept as such (\<open>js_text\<close>): it is trimmed and sliced, and both work on code
  units. Strings that the flow only compares, concatenates or searches for ASCII characters
  (URLs, test identifiers, the prompt, header values) are kept as \<open>string\<close>.
  \<open>utf16\<close> writes a text whose characters are below U+0100 as code units.
\<close>

type_synonym code_unit = "16 word"

type_synonym js_text = "code_unit list"

definition utf16 :: "string \<Rightarrow> js_text" where
  "utf16 s = map of_char s"

text \<open>
  \<^verbatim>\<open>String.prototype.trim\<close> removes white space and line terminators from both ends:
  tab, line feed, vertical tab, form feed, carriage return, space, no-break space, U+1680,
  U+2000 to U+200A, the line and paragraph separators, U+202F, U+205F, U+3000 and U+FEFF.
\<close>

definition is_space :: "code_unit \<Rightarrow> bool" where
  "is_space c \<longleftrightarrow>
     c \<in> set [0x0009, 0x000A, 0x000B, 0x000C, 0x000D, 0x0020, 0x00A0, 0x1680,
              0x2000, 0x2001, 0x2002, 0x2003, 0x2004, 0x2005, 0x2006, 0x2007, 0x2008,
              0x2009, 0x200A, 0x2028, 0x2029, 0x202F, 0x205F, 0x3000, 0xFEFF]"

definition trim :: "js_text \<Rightarrow> js_text" where
  "trim s = rev (dropWhile is_space (rev (dropWhile is_space s)))"

section \<open>The browser page as the flow sees it\<close>

text \<open>
  \<^verbatim>\<open>promptWithOptions\<close> (src/flows/prompt-flow.js) drives a Puppeteer page. The page is
  the environment of the flow: the model fixes, in a record, what the page answers to each
  call the flow makes, and the flow becomes a function of that record.

  A response container is an \<^verbatim>\<open>article\<close> element. Of an article the flow reads
  \<^verbatim>\<open>dataset.testid\<close> (\<open>None\<close>: the article has no \<^verbatim>\<open>data-testid\<close>) and the
  \<^verbatim>\<open>innerText\<close> of the \<^verbatim>\<open>div.markdown\<close> below it (\<open>None\<close>: there is no such div).
  A document is the list of its articles in document order.
\<close>

record article =
  testid :: "string option"
  markdown :: "js_text option"

type_synonym document = "article list"

text \<open>
  The only selector the flow computes is
  \<^verbatim>\<open>article[data-testid="${latestId}"] div.markdown\<close>; it is kept structured, by the text
  the template literal puts between the quotes.
\<close>

datatype selector = ArticleMarkdown string

text \<open>
  The first element of a document that the selector matches, in document order, by its
  \<^verbatim>\<open>innerText\<close>, when the text between the quotes is the value the attribute selector
  compares with: an article without the attribute never matches.
\<close>

fun query :: "document \<Rightarrow> selector \<Rightarrow> js_text option" where
  "query doc (ArticleMarkdown tid) =
     (case find (\<lambda>a. testid a = Some tid \<and> markdown a \<noteq> None) doc of
        None \<Rightarrow> None
      | Some a \<Rightarrow> markdown a)"

text \<open>
  The text between the quotes is that value when CSS reads it as it stands: it holds no
  double quote, no backslash, no line feed, form feed or carriage return and no NUL. Any
  other text ends the CSS string early, escapes a character or is replaced by the
  tokenizer; what such a selector means is left to the browser, as part of the page.
\<close>

definition css_plain :: "string \<Rightarrow> bool" where
  "css_plain tid \<longleftrightarrow>
     (\<forall>c\<in>set tid. c \<notin> set [CHR 0x00, CHR 0x0A, CHR 0x0C, CHR 0x0D, CHR 0x22, CHR 0x5C])"

record page =
  goto_ok :: "string \<Rightarrow> bool"
  click_ok :: "string \<Rightarrow> bool"
  editor_ok :: bool
  doc_at_select :: document
  docs_during_wait :: "document list"
  doc_at_poll :: "nat \<Rightarrow> document"
  css_valid :: "string \<Rightarrow> bool"
  css_wait :: "string \<Rightarrow> bool"
  css_poll :: "string \<Rightarrow> nat \<Rightarrow> js_text option"
  url_after :: string

text \<open>
  \<^item> \<open>goto_ok url\<close>: \<^verbatim>\<open>page.goto(url, ...)\<close> reaches DOM readiness within its 120 s.
  \<^item> \<open>click_ok sel\<close>: \<^verbatim>\<open>page.locator(sel).click()\<close> finds its element and clicks it.
  \<^item> \<open>editor_ok\<close>: \<^verbatim>\<open>page.waitForSelector('#prompt-textarea')\<close> finds the editor.
  \<^item> \<open>doc_at_select\<close>: the document when \<^verbatim>\<open>page.$$eval('article', ...)\<close> lists the articles.
  \<^item> \<open>docs_during_wait\<close>: the documents \<^verbatim>\<open>page.waitForSelector(mdSelector, ...)\<close> looks at
    during its 30 s, in order.
  \<^item> \<open>doc_at_poll i\<close>: the document at iteration \<open>i\<close> of the polling loop.
  \<^item> For a text \<open>tid\<close> that is not \<open>css_plain\<close>: \<open>css_valid tid\<close>, the selector built from
    it is a valid selector; \<open>css_wait tid\<close>, an element it matches appears during the
    wait; \<open>css_poll tid i\<close>, the \<^verbatim>\<open>innerText\<close> of the first element it matches at iteration
    \<open>i\<close> of the polling loop.
  \<^item> \<open>url_after\<close>: \<^verbatim>\<open>page.url()\<close> after the polling loop.
\<close>

text \<open>
  \<^verbatim>\<open>page.waitForSelector(sel, ...)\<close> and \<^verbatim>\<open>page.$(sel)\<close> throw on an invalid selector;
  otherwise the wait succeeds when an element matches within its time, and \<^verbatim>\<open>page.$\<close>
  gives the first match (\<open>None\<close> is the null handle).
\<close>

fun selector_valid :: "page \<Rightarrow> selector \<Rightarrow> bool" where
  "selector_valid pg (ArticleMarkdown tid) \<longleftrightarrow> css_plain tid \<or> css_valid pg tid"

fun wait_finds :: "page \<Rightarrow> selector \<Rightarrow> bool" where
  "wait_finds pg (ArticleMarkdown tid) =
     (if css_plain tid
      then list_ex (\<lambda>d. query d (ArticleMarkdown tid) \<noteq> None) (docs_during_wait pg)
      else css_wait pg tid)"

fun poll_handle :: "page \<Rightarrow> selector \<Rightarrow> nat \<Rightarrow> js_text option" where
  "poll_handle pg (ArticleMarkdown tid) i =
     (if css_plain tid then query (doc_at_poll pg i) (ArticleMarkdown tid)
      else css_poll pg tid i)"

section \<open>Effects and errors\<close>

datatype console_msg =
    LoadingUrl string
  | EnablingReason
  | EnablingSearch
  | ClearingEditor
  | TypingAndSubmitting
  | WaitingForContainer
  | PollingUntilStable
  | PollMsg nat "js_text option"
  | NeverStabilized
  | CleanedObject "js_text option"
  | FailedToExtract
  | CleanedResponse js_text
  | ResolvedThreadId "string option"

datatype event =
    ConsoleLog console_msg
  | ConsoleWarn console_msg
  | ConsoleError console_msg
  | Goto string nat
  | Click string
  | WaitForSelector string
  | WaitForMarkdown selector nat
  | EditorClick
  | EditorClear
  | EditorType string
  | EditorPress string
  | WaitForTimeout nat
  | ListArticles
  | Query selector
  | Convert "js_text option"
  | ReadUrl

text \<open>
  The source has no \<^verbatim>\<open>throw\<close> of its own; the flow fails where a Puppeteer call it
  awaits rejects, or where the converter throws. Nothing is caught.
\<close>

datatype error =
    NavigationTimeout string nat
  | LocatorFailed string
  | SelectorTimeout string
  | SelectorSyntaxError selector
  | MarkdownTimeout selector nat
  | ConverterThrew

section \<open>The polling loop (prompt-flow.js, lines 64 to 90)\<close>

text \<open>
  The sample of iteration \<open>i\<close>: \<^verbatim>\<open>handle ? await handle.evaluate(el => el.innerText.trim()) : ''\<close>.
\<close>

definition sample :: "page \<Rightarrow> selector \<Rightarrow> nat \<Rightarrow> js_text" where
  "sample pg sel i = (case poll_handle pg sel i of None \<Rightarrow> [] | Some t \<Rightarrow> trim t)"

definition POLL_LIMIT :: "bool \<Rightarrow> nat" where
  "POLL_LIMIT reason_mode = (if reason_mode then 600 else 300)"

definition POLL_INTERVAL :: nat where
  "POLL_INTERVAL = 1000"

text \<open>
  The loop's variables: the counter \<^verbatim>\<open>i\<close> (\<open>idx\<close>), \<^verbatim>\<open>previous\<close>, \<^verbatim>\<open>finalText\<close> (\<open>None\<close> is
  \<^verbatim>\<open>null\<close>), and the effects so far. A JavaScript string is truthy when it is not empty.
\<close>

record poll_state =
  idx :: nat
  previous :: js_text
  finalText :: "js_text option"
  trace :: "event list"

function poll_loop :: "page \<Rightarrow> selector \<Rightarrow> nat \<Rightarrow> poll_state \<Rightarrow> poll_state" where
  "poll_loop pg sel limit st =
     (if idx st < limit then
        (let text = sample pg sel (idx st);
             st1 = st\<lparr>trace := trace st @
                     [Query sel,
                      ConsoleLog (PollMsg (idx st + 1)
                        (if text \<noteq> [] then Some (take 50 text) else None))]\<rparr>
         in if text \<noteq> [] \<and> text = previous st1
            then st1\<lparr>finalText := Some text\<rparr>
            else poll_loop pg sel limit
                   (st1\<lparr>previous := text,
                        trace := trace st1 @ [WaitForTimeout POLL_INTERVAL],
                        idx := Suc (idx st)\<rparr>))
      else st)"
  by pat_completeness auto
termination
  by (relation "measure (\<lambda>(pg, sel, limit, st). limit - idx st)") auto

declare poll_loop.simps [simp del]

definition poll_init :: poll_state where
  "poll_init = \<lparr>idx = 0, previous = [], finalText = None,
                trace = [ConsoleLog PollingUntilStable]\<rparr>"

text \<open>
  Lines 87 to 90:
  \<^verbatim>\<open>if (finalText === null) { console.warn(...); finalText = previous || null; }\<close>.
  The result is the effects and the captured text.
\<close>

definition finish_poll :: "poll_state \<Rightarrow> event list \<times> js_text option" where
  "finish_poll st =
     (if finalText st = None
      then (trace st @ [ConsoleWarn NeverStabilized],
            if previous st \<noteq> [] then Some (previous st) else None)
      else (trace st, finalText st))"

definition stabilize :: "page \<Rightarrow> selector \<Rightarrow> bool \<Rightarrow> event list \<times> js_text option" where
  "stabilize pg sel reason_mode =
     finish_poll (poll_loop pg sel (POLL_LIMIT reason_mode) poll_init)"

section \<open>The thread identifier (prompt-flow.js, lines 102 to 105)\<close>

text \<open>
  \<^verbatim>\<open>page.url().match(/\/c\/([0-9a-f\-]+)/)\<close>: the pattern is not anchored, so the
  match is the leftmost position where \<^verbatim>\<open>/c/\<close> is followed by at least one character
  of the class; the group is greedy and nothing follows it, so it captures the whole run.
  \<open>None\<close> is \<^verbatim>\<open>null\<close>.
\<close>

definition is_hex_hyphen :: "char \<Rightarrow> bool" where
  "is_hex_hyphen c = (c \<in> set ''0123456789abcdef-'')"

fun match_thread :: "string \<Rightarrow> string option" where
  "match_thread [] = None"
| "match_thread (c # cs) =
     (if take 3 (c # cs) = ''/c/'' \<and> takeWhile is_hex_hyphen (drop 3 (c # cs)) \<noteq> []
      then Some (takeWhile is_hex_hyphen (drop 3 (c # cs)))
      else match_thread cs)"

section \<open>The flow (prompt-flow.js, promptWithOptions)\<close>

record options =
  reason :: bool
  search :: bool
  threadId :: "string option"

text \<open>The returned object \<^verbatim>\<open>{ threadId: newThreadId, response: cleaned }\<close>.\<close>

record prompt_result =
  r_threadId :: "string option"
  r_response :: "js_text option"

text \<open>
  A step of the flow yields its effects and either the error it throws or its value;
  \<open>bind_flow\<close> is \<^verbatim>\<open>await\<close> followed by the rest of the function.
\<close>

type_synonym 'a flow = "event list \<times> (error + 'a)"

definition bind_flow :: "'a flow \<Rightarrow> ('a \<Rightarrow> 'b flow) \<Rightarrow> 'b flow" where
  "bind_flow m f =
     (case m of
        (ev, Inl e) \<Rightarrow> (ev, Inl e)
      | (ev, Inr x) \<Rightarrow> (case f x of (ev', r) \<Rightarrow> (ev @ ev', r)))"

definition base :: string where
  "base = ''https://chatgpt.com''"

text \<open>\<^verbatim>\<open>threadId ? `${base}/c/${threadId}` : base\<close>: null and the empty string are falsy.\<close>

definition target_url :: "string option \<Rightarrow> string" where
  "target_url tid =
     (case tid of
        None \<Rightarrow> base
      | Some t \<Rightarrow> if t = [] then base else base @ ''/c/'' @ t)"

definition navigate :: "page \<Rightarrow> options \<Rightarrow> unit flow" where
  "navigate pg opts =
     (let url = target_url (threadId opts);
          ev = [ConsoleLog (LoadingUrl url), Goto url 120000]
      in if goto_ok pg url then (ev, Inr ()) else (ev, Inl (NavigationTimeout url 120000)))"

definition click :: "page \<Rightarrow> string \<Rightarrow> unit flow" where
  "click pg s = ([Click s], if click_ok pg s then Inr () else Inl (LocatorFailed s))"

definition toggle_modes :: "page \<Rightarrow> options \<Rightarrow> unit flow" where
  "toggle_modes pg opts =
     bind_flow
       (if reason opts
        then bind_flow ([ConsoleLog EnablingReason], Inr ())
               (\<lambda>_. click pg ''button::-p-aria(Reason)'')
        else ([], Inr ()))
       (\<lambda>_. if search opts
             then bind_flow ([ConsoleLog EnablingSearch], Inr ())
                    (\<lambda>_. click pg ''button::-p-aria(Search)'')
             else ([], Inr ()))"

definition prepare_editor :: "page \<Rightarrow> unit flow" where
  "prepare_editor pg =
     (let ev = [ConsoleLog ClearingEditor, WaitForSelector ''#prompt-textarea'']
      in if editor_ok pg then (ev @ [EditorClick, EditorClear], Inr ())
         else (ev, Inl (SelectorTimeout ''#prompt-textarea'')))"

definition promptContext :: string where
  "promptContext = ''return the response to the below prompt excluding all the sources with links mentioned in the response anywhere. Prompt as follows: ''"

definition submit_prompt :: "string \<Rightarrow> unit flow" where
  "submit_prompt prompt =
     ([ConsoleLog TypingAndSubmitting, EditorType (promptContext @ prompt),
       EditorPress ''Enter''], Inr ())"

text \<open>
  \<^verbatim>\<open>page.$$eval('article', els => els.map(a => a.dataset.testid))\<close> returns the
  identifiers by value: the \<^verbatim>\<open>undefined\<close> of an article without \<^verbatim>\<open>data-testid\<close> arrives
  as \<^verbatim>\<open>null\<close>.
\<close>

datatype js_id = Undefined | Null | Str string

definition article_ids :: "document \<Rightarrow> js_id list" where
  "article_ids doc = map (\<lambda>a. case testid a of None \<Rightarrow> Null | Some s \<Rightarrow> Str s) doc"

text \<open>\<^verbatim>\<open>ids.pop()\<close>: the last element, \<^verbatim>\<open>undefined\<close> on the empty array (no error).\<close>

definition pop :: "js_id list \<Rightarrow> js_id" where
  "pop ids = (if ids = [] then Undefined else last ids)"

text \<open>
  The template literal prints \<^verbatim>\<open>undefined\<close> as the text \<^verbatim>\<open>undefined\<close> and \<^verbatim>\<open>null\<close> as
  the text \<^verbatim>\<open>null\<close>.
\<close>

definition mdSelector :: "js_id \<Rightarrow> selector" where
  "mdSelector latestId =
     ArticleMarkdown
       (case latestId of Undefined \<Rightarrow> ''undefined'' | Null \<Rightarrow> ''null'' | Str s \<Rightarrow> s)"

definition select_container :: "page \<Rightarrow> selector flow" where
  "select_container pg =
     (let ids = article_ids (doc_at_select pg);
          latestId = pop ids;
          sel = mdSelector latestId;
          ev = [ConsoleLog WaitingForContainer, WaitForTimeout 1000, ListArticles,
                WaitForMarkdown sel 30000]
      in if \<not> selector_valid pg sel then (ev, Inl (SelectorSyntaxError sel))
         else if wait_finds pg sel then (ev, Inr sel)
         else (ev, Inl (MarkdownTimeout sel 30000)))"

text \<open>
  Lines 92 to 100. \<^verbatim>\<open>converter\<close> is an instance of \<^verbatim>\<open>HtmlToText\<close> of the package
  \<^verbatim>\<open>html-to-text-conv\<close>, which is not part of the repository: \<^verbatim>\<open>converter.convert\<close> is a
  parameter of the model, a function that throws (\<open>Inl\<close>) or returns \<^verbatim>\<open>null\<close> (\<open>None\<close>)
  or a string.
\<close>

type_synonym converter = "js_text option \<Rightarrow> error + js_text option"

definition clean :: "converter \<Rightarrow> js_text option \<Rightarrow> (js_text option) flow" where
  "clean convert final =
     (case convert final of
        Inl e \<Rightarrow> ([Convert final], Inl e)
      | Inr cleaned \<Rightarrow>
          ([Convert final, ConsoleLog (CleanedObject cleaned)] @
           (case cleaned of
              None \<Rightarrow> [ConsoleError FailedToExtract]
            | Some c \<Rightarrow> [ConsoleLog (CleanedResponse c)]),
           Inr cleaned))"

definition resolve_thread :: "page \<Rightarrow> event list \<times> string option" where
  "resolve_thread pg =
     (let newThreadId = match_thread (url_after pg)
      in ([ReadUrl, ConsoleLog (ResolvedThreadId newThreadId)], newThreadId))"

definition promptWithOptions ::
  "converter \<Rightarrow> page \<Rightarrow> options \<Rightarrow> string \<Rightarrow> prompt_result flow" where
  "promptWithOptions convert pg opts prompt =
     bind_flow (navigate pg opts) (\<lambda>_.
     bind_flow (toggle_modes pg opts) (\<lambda>_.
     bind_flow (prepare_editor pg) (\<lambda>_.
     bind_flow (submit_prompt prompt) (\<lambda>_.
     bind_flow (select_container pg) (\<lambda>sel.
     bind_flow (fst (stabilize pg sel (reason opts)),
                Inr (snd (stabilize pg sel (reason opts)))) (\<lambda>final.
     bind_flow (clean convert final) (\<lambda>cleaned.
       (fst (resolve_thread pg),
        Inr \<lparr>r_threadId = snd (resolve_thread pg), r_response = cleaned\<rparr>))))))))"

section \<open>The API key check (verifyApiKey)\<close>

text \<open>
  \<^verbatim>\<open>process.env\<close> as far as the function reads it: a variable that is not set is
  \<^verbatim>\<open>undefined\<close> (\<open>None\<close>).
\<close>

record process_env =
  NODE_ENV :: "string option"
  ERKUT_API_KEY :: "string option"

text \<open>
  Of the request the function reads one header. Node keeps the header names in lower case,
  and \<^verbatim>\<open>req.header(name)\<close> of Express looks the lower-cased name up; a header that was
  not sent is \<^verbatim>\<open>undefined\<close>.
\<close>

record request =
  headers :: "string \<rightharpoonup> string"

definition to_lower :: "char \<Rightarrow> char" where
  "to_lower c =
     (case map_of (zip ''ABCDEFGHIJKLMNOPQRSTUVWXYZ'' ''abcdefghijklmnopqrstuvwxyz'') c of
        None \<Rightarrow> c
      | Some l \<Rightarrow> l)"

definition header :: "request \<Rightarrow> string \<Rightarrow> string option" where
  "header req name = headers req (map to_lower name)"

text \<open>
  The outcome: \<^verbatim>\<open>next()\<close> is called, or the response is sent with a status and a JSON
  object, kept as the list of its members.
\<close>

datatype outcome = Next | Respond nat "(string \<times> string) list"

text \<open>\<^verbatim>\<open>!clientKey\<close> holds for \<^verbatim>\<open>undefined\<close> and for the empty string.\<close>

definition verifyApiKey :: "process_env \<Rightarrow> request \<Rightarrow> outcome" where
  "verifyApiKey env req =
     (if NODE_ENV env = Some ''development'' then Next
      else
        (let clientKey = header req ''ERKUT-API-KEY''
         in if (clientKey = None \<or> clientKey = Some []) \<or> clientKey \<noteq> ERKUT_API_KEY env
            then Respond 401 [(''error'', ''invalid api key'')]
            else Next))"

section \<open>Auxiliary definitions\<close>

text \<open>
  The state after an iteration that does not break: \<^verbatim>\<open>previous = text\<close>, the sleep, and
  \<^verbatim>\<open>i++\<close>.
\<close>

definition poll_next :: "page \<Rightarrow> selector \<Rightarrow> poll_state \<Rightarrow> poll_state" where
  "poll_next pg sel st =
     st\<lparr>previous := sample pg sel (idx st),
        trace := trace st @
          [Query sel,
           ConsoleLog (PollMsg (idx st + 1)
             (if sample pg sel (idx st) \<noteq> [] then Some (take 50 (sample pg sel (idx st))) else None)),
           WaitForTimeout POLL_INTERVAL],
        idx := Suc (idx st)\<rparr>"

text \<open>
  The value of \<^verbatim>\<open>previous\<close> at the start of iteration \<open>k\<close> of a loop resumed in state
  \<open>st\<close>: the state's own at its first iteration, the sample before afterwards.
\<close>

definition prev_at :: "page \<Rightarrow> selector \<Rightarrow> poll_state \<Rightarrow> nat \<Rightarrow> js_text" where
  "prev_at pg sel st k = (if k = idx st then previous st else sample pg sel (k - 1))"

text \<open>The sleeps among the effects, in order.\<close>

fun sleeps :: "event list \<Rightarrow> nat list" where
  "sleeps [] = []"
| "sleeps (WaitForTimeout ms # es) = ms # sleeps es"
| "sleeps (e # es) = sleeps es"

subsection \<open>Concrete pages\<close>

text \<open>
  A page whose second article streams \<^verbatim>\<open>""\<close>, \<^verbatim>\<open>"Hello"\<close>, then \<^verbatim>\<open>"Hello world "\<close> from
  the third poll on; the location ends in \<^verbatim>\<open>/c/abc-123\<close>.
\<close>

definition hello_doc :: "nat \<Rightarrow> document" where
  "hello_doc i =
     [\<lparr>testid = Some ''conversation-turn-1'', markdown = None\<rparr>,
      \<lparr>testid = Some ''conversation-turn-2'',
       markdown = Some (if i = 0 then [] else if i = 1 then utf16 ''Hello''
                        else utf16 ''Hello world '')\<rparr>]"

definition hello_page :: page where
  "hello_page =
     \<lparr>goto_ok = (\<lambda>_. True), click_ok = (\<lambda>_. True), editor_ok = True,
      doc_at_select = hello_doc 0, docs_during_wait = [hello_doc 0],
      doc_at_poll = hello_doc,
      css_valid = (\<lambda>_. False), css_wait = (\<lambda>_. False), css_poll = (\<lambda>_ _. None),
      url_after = ''https://chatgpt.com/c/abc-123''\<rparr>"

definition turn2 :: selector where
  "turn2 = ArticleMarkdown ''conversation-turn-2''"

text \<open>
  A page that shows \<^verbatim>\<open>"A"\<close>, \<^verbatim>\<open>"B"\<close>, then \<^verbatim>\<open>"C"\<close>; a page that shows \<^verbatim>\<open>"A"\<close>,
  \<^verbatim>\<open>"B"\<close>, and then loses its article (the handle is null from the third poll on); a page
  whose container holds white space only (a space, a no-break space and a line separator).
\<close>

definition abc_page :: page where
  "abc_page =
     \<lparr>goto_ok = (\<lambda>_. True), click_ok = (\<lambda>_. True), editor_ok = True,
      doc_at_select = [\<lparr>testid = Some ''conversation-turn-2'', markdown = None\<rparr>],
      docs_during_wait = [[\<lparr>testid = Some ''conversation-turn-2'', markdown = Some []\<rparr>]],
      doc_at_poll = (\<lambda>i. [\<lparr>testid = Some ''conversation-turn-2'',
                       markdown = Some (if i = 0 then utf16 ''A'' else if i = 1 then utf16 ''B''
                                        else utf16 ''C'')\<rparr>]),
      css_valid = (\<lambda>_. False), css_wait = (\<lambda>_. False), css_poll = (\<lambda>_ _. None),
      url_after = ''https://chatgpt.com/''\<rparr>"

definition fading_page :: page where
  "fading_page =
     \<lparr>goto_ok = (\<lambda>_. True), click_ok = (\<lambda>_. True), editor_ok = True,
      doc_at_select = [\<lparr>testid = Some ''conversation-turn-2'', markdown = None\<rparr>],
      docs_during_wait = [[\<lparr>testid = Some ''conversation-turn-2'', markdown = Some []\<rparr>]],
      doc_at_poll =
        (\<lambda>i. if i = 0 then [\<lparr>testid = Some ''conversation-turn-2'', markdown = Some (utf16 ''A'')\<rparr>]
             else if i = 1 then [\<lparr>testid = Some ''conversation-turn-2'', markdown = Some (utf16 ''B'')\<rparr>]
             else []),
      css_valid = (\<lambda>_. False), css_wait = (\<lambda>_. False), css_poll = (\<lambda>_ _. None),
      url_after = ''https://chatgpt.com/''\<rparr>"

definition blank_page :: page where
  "blank_page =
     \<lparr>goto_ok = (\<lambda>_. True), click_ok = (\<lambda>_. True), editor_ok = True,
      doc_at_select = [\<lparr>testid = Some ''conversation-turn-2'', markdown = None\<rparr>],
      docs_during_wait = [[\<lparr>testid = Some ''conversation-turn-2'', markdown = Some []\<rparr>]],
      doc_at_poll = (\<lambda>i. [\<lparr>testid = Some ''conversation-turn-2'',
                       markdown = Some [0x0020, 0x00A0, 0x2028]\<rparr>]),
      css_valid = (\<lambda>_. False), css_wait = (\<lambda>_. False), css_poll = (\<lambda>_ _. None),
      url_after = ''https://chatgpt.com/''\<rparr>"

subsection \<open>Observations on the flow\<close>

text \<open>
  The flow gets as far as typing the prompt: the navigation, the clicks on the requested
  mode buttons and the wait for the editor succeed.
\<close>

definition submits :: "page \<Rightarrow> options \<Rightarrow> bool" where
  "submits pg opts \<longleftrightarrow>
     goto_ok pg (target_url (threadId opts)) \<and>
     (reason opts \<longrightarrow> click_ok pg ''button::-p-aria(Reason)'') \<and>
     (search opts \<longrightarrow> click_ok pg ''button::-p-aria(Search)'') \<and>
     editor_ok pg"

text \<open>
  The texts typed into the editor, the selectors queried by the polling loop and the
  messages of \<^verbatim>\<open>console.error\<close>, each in order.
\<close>

definition typed :: "event list \<Rightarrow> string list" where
  "typed = List.map_filter (\<lambda>e. case e of EditorType t \<Rightarrow> Some t | _ \<Rightarrow> None)"

definition queries :: "event list \<Rightarrow> selector list" where
  "queries = List.map_filter (\<lambda>e. case e of Query s \<Rightarrow> Some s | _ \<Rightarrow> None)"

definition console_errors :: "event list \<Rightarrow> console_msg list" where
  "console_errors = List.map_filter (\<lambda>e. case e of ConsoleError m \<Rightarrow> Some m | _ \<Rightarrow> None)"

subsection \<open>Concrete converters, options and pages\<close>

text \<open>
  A converter for the concrete runs: the empty string for null, and a text without markup
  as it is. Options without modes and without a thread. A page without articles when they
  are listed, on which an article with the test identifier \<^verbatim>\<open>undefined\<close> appears during
  the wait; and one on which the articles of \<open>hello_doc\<close> appear during the wait.
\<close>

definition text_converter :: converter where
  "text_converter final = (case final of None \<Rightarrow> Inr (Some []) | Some t \<Rightarrow> Inr (Some t))"

definition plain :: options where
  "plain = \<lparr>reason = False, search = False, threadId = None\<rparr>"

definition undefined_doc :: document where
  "undefined_doc = [\<lparr>testid = Some ''undefined'', markdown = Some (utf16 ''Hi'')\<rparr>]"

definition undefined_page :: page where
  "undefined_page =
     \<lparr>goto_ok = (\<lambda>_. True), click_ok = (\<lambda>_. True), editor_ok = True,
      doc_at_select = [], docs_during_wait = [[], undefined_doc],
      doc_at_poll = (\<lambda>_. undefined_doc),
      css_valid = (\<lambda>_. False), css_wait = (\<lambda>_. False), css_poll = (\<lambda>_ _. None),
      url_after = ''https://chatgpt.com/''\<rparr>"

definition late_page :: page where
  "late_page =
     \<lparr>goto_ok = (\<lambda>_. True), click_ok = (\<lambda>_. True), editor_ok = True,
      doc_at_select = [], docs_during_wait = [[], hello_doc 2],
      doc_at_poll = hello_doc,
      css_valid = (\<lambda>_. False), css_wait = (\<lambda>_. False), css_poll = (\<lambda>_ _. None),
      url_after = ''https://chatgpt.com/''\<rparr>"

section \<open>Properties of the polling loop\<close>

lemma poll_next_simps [simp]:
  "idx (poll_next pg sel st) = Suc (idx st)"
  "previous (poll_next pg sel st) = sample pg sel (idx st)"
  "finalText (poll_next pg sel st) = finalText st"
  by (simp_all add: poll_next_def)

lemma poll_loop_continue:
  assumes "idx st < limit"
    and "\<not> (sample pg sel (idx st) \<noteq> [] \<and> sample pg sel (idx st) = previous st)"
  shows "poll_loop pg sel limit st = poll_loop pg sel limit (poll_next pg sel st)"
  using assms by (subst poll_loop.simps) (auto simp: Let_def poll_next_def)

lemma poll_loop_break:
  assumes "idx st < limit"
    and "sample pg sel (idx st) \<noteq> []" and "sample pg sel (idx st) = previous st"
  shows "finalText (poll_loop pg sel limit st) = Some (sample pg sel (idx st))"
    and "idx (poll_loop pg sel limit st) = idx st"
    and "previous (poll_loop pg sel limit st) = previous st"
  using assms by (subst poll_loop.simps; simp add: Let_def)+

lemma poll_loop_done:
  "\<not> idx st < limit \<Longrightarrow> poll_loop pg sel limit st = st"
  by (subst poll_loop.simps) simp

lemma prev_at_next:
  "idx st < k \<Longrightarrow> prev_at pg sel (poll_next pg sel st) k = prev_at pg sel st k"
  by (auto simp: prev_at_def)

lemma poll_loop_stable_gen:
  assumes "idx st \<le> j" "j < limit"
    and "sample pg sel j \<noteq> []"
    and "sample pg sel j = prev_at pg sel st j"
    and "\<forall>k. idx st \<le> k \<and> k < j \<longrightarrow>
           \<not> (sample pg sel k \<noteq> [] \<and> sample pg sel k = prev_at pg sel st k)"
  shows "finalText (poll_loop pg sel limit st) = Some (sample pg sel j) \<and>
         idx (poll_loop pg sel limit st) = j"
  using assms
proof (induction "j - idx st" arbitrary: st)
  case 0
  then have "idx st = j" by simp
  with 0 show ?case
    using poll_loop_break [of st limit pg sel] by (simp add: prev_at_def)
next
  case (Suc d)
  then have lt: "idx st < j" by simp
  with Suc.prems have nost:
    "\<not> (sample pg sel (idx st) \<noteq> [] \<and> sample pg sel (idx st) = previous st)"
    by (metis le_refl prev_at_def)
  have unf: "poll_loop pg sel limit st = poll_loop pg sel limit (poll_next pg sel st)"
    using lt Suc.prems(2) nost by (intro poll_loop_continue) simp_all
  have "finalText (poll_loop pg sel limit (poll_next pg sel st)) = Some (sample pg sel j) \<and>
        idx (poll_loop pg sel limit (poll_next pg sel st)) = j"
  proof (rule Suc.hyps(1))
    show "d = j - idx (poll_next pg sel st)" using Suc.hyps(2) by simp
    show "idx (poll_next pg sel st) \<le> j" using lt by simp
    show "j < limit" by (rule Suc.prems(2))
    show "sample pg sel j \<noteq> []" by (rule Suc.prems(3))
    show "sample pg sel j = prev_at pg sel (poll_next pg sel st) j"
      using Suc.prems(4) lt by (simp add: prev_at_next)
    show "\<forall>k. idx (poll_next pg sel st) \<le> k \<and> k < j \<longrightarrow>
           \<not> (sample pg sel k \<noteq> [] \<and> sample pg sel k = prev_at pg sel (poll_next pg sel st) k)"
      using Suc.prems(5) by (simp add: prev_at_next)
  qed
  then show ?case using unf by simp
qed

lemma poll_loop_exhaust_gen:
  assumes "idx st \<le> limit"
    and "\<forall>k. idx st \<le> k \<and> k < limit \<longrightarrow>
           \<not> (sample pg sel k \<noteq> [] \<and> sample pg sel k = prev_at pg sel st k)"
  shows "finalText (poll_loop pg sel limit st) = finalText st \<and>
         idx (poll_loop pg sel limit st) = limit \<and>
         previous (poll_loop pg sel limit st) = prev_at pg sel st limit"
  using assms
proof (induction "limit - idx st" arbitrary: st)
  case 0
  then have "idx st = limit" by simp
  then show ?case by (simp add: poll_loop_done prev_at_def)
next
  case (Suc d)
  then have lt: "idx st < limit" by simp
  with Suc.prems have nost:
    "\<not> (sample pg sel (idx st) \<noteq> [] \<and> sample pg sel (idx st) = previous st)"
    by (metis le_refl prev_at_def)
  have unf: "poll_loop pg sel limit st = poll_loop pg sel limit (poll_next pg sel st)"
    using lt nost by (intro poll_loop_continue) simp_all
  have "finalText (poll_loop pg sel limit (poll_next pg sel st)) = finalText (poll_next pg sel st) \<and>
        idx (poll_loop pg sel limit (poll_next pg sel st)) = limit \<and>
        previous (poll_loop pg sel limit (poll_next pg sel st)) = prev_at pg sel (poll_next pg sel st) limit"
  proof (rule Suc.hyps(1))
    show "d = limit - idx (poll_next pg sel st)" using Suc.hyps(2) by simp
    show "idx (poll_next pg sel st) \<le> limit" using lt by simp
    show "\<forall>k. idx (poll_next pg sel st) \<le> k \<and> k < limit \<longrightarrow>
           \<not> (sample pg sel k \<noteq> [] \<and> sample pg sel k = prev_at pg sel (poll_next pg sel st) k)"
      using Suc.prems(2) by (simp add: prev_at_next)
  qed
  then show ?case using unf lt by (simp add: prev_at_next)
qed

text \<open>Whatever the page shows, a break stores a non-empty text.\<close>

lemma poll_loop_finalText_nonempty:
  assumes "finalText st \<noteq> Some []"
  shows "finalText (poll_loop pg sel limit st) \<noteq> Some []"
  using assms
proof (induction "limit - idx st" arbitrary: st)
  case 0
  then show ?case by (simp add: poll_loop_done)
next
  case (Suc d)
  then have lt: "idx st < limit" by simp
  show ?case
  proof (cases "sample pg sel (idx st) \<noteq> [] \<and> sample pg sel (idx st) = previous st")
    case True
    then have a: "sample pg sel (idx st) \<noteq> []" and b: "sample pg sel (idx st) = previous st"
      by blast+
    show ?thesis using a by (simp add: poll_loop_break(1) [OF lt a b])
  next
    case False
    have "finalText (poll_loop pg sel limit (poll_next pg sel st)) \<noteq> Some []"
      using Suc by (intro Suc.hyps(1)) simp_all
    then show ?thesis using poll_loop_continue [OF lt False] by simp
  qed
qed


lemma poll_loop_cases:
  assumes "finalText st = None" "idx st \<le> limit"
  shows "(finalText (poll_loop pg sel limit st) = None \<and> idx (poll_loop pg sel limit st) = limit) \<or>
         (idx (poll_loop pg sel limit st) < limit \<and>
          sample pg sel (idx (poll_loop pg sel limit st)) \<noteq> [] \<and>
          finalText (poll_loop pg sel limit st) =
            Some (sample pg sel (idx (poll_loop pg sel limit st))))"
  using assms
proof (induction "limit - idx st" arbitrary: st)
  case 0
  then show ?case by (simp add: poll_loop_done)
next
  case (Suc d)
  then have lt: "idx st < limit" by simp
  show ?case
  proof (cases "sample pg sel (idx st) \<noteq> [] \<and> sample pg sel (idx st) = previous st")
    case True
    then have a: "sample pg sel (idx st) \<noteq> []" and b: "sample pg sel (idx st) = previous st"
      by blast+
    show ?thesis using a lt by (simp add: poll_loop_break [OF lt a b])
  next
    case False
    have "(finalText (poll_loop pg sel limit (poll_next pg sel st)) = None \<and>
           idx (poll_loop pg sel limit (poll_next pg sel st)) = limit) \<or>
         (idx (poll_loop pg sel limit (poll_next pg sel st)) < limit \<and>
          sample pg sel (idx (poll_loop pg sel limit (poll_next pg sel st))) \<noteq> [] \<and>
          finalText (poll_loop pg sel limit (poll_next pg sel st)) =
            Some (sample pg sel (idx (poll_loop pg sel limit (poll_next pg sel st)))))"
      using Suc lt by (intro Suc.hyps(1)) simp_all
    then show ?thesis using poll_loop_continue [OF lt False] by simp
  qed
qed

lemma sleeps_append: "sleeps (xs @ ys) = sleeps xs @ sleeps ys"
  by (induction xs rule: sleeps.induct) simp_all

lemma poll_loop_break_trace:
  assumes "idx st < limit"
    and "sample pg sel (idx st) \<noteq> []" and "sample pg sel (idx st) = previous st"
  shows "trace (poll_loop pg sel limit st) =
           trace st @ [Query sel,
             ConsoleLog (PollMsg (idx st + 1) (Some (take 50 (sample pg sel (idx st)))))]"
  using assms by (subst poll_loop.simps) (simp add: Let_def)

lemma poll_loop_sleeps_count:
  "idx st \<le> idx (poll_loop pg sel limit st) \<and>
   sleeps (trace (poll_loop pg sel limit st)) =
     sleeps (trace st) @ replicate (idx (poll_loop pg sel limit st) - idx st) POLL_INTERVAL"
proof (induction "limit - idx st" arbitrary: st)
  case 0
  then show ?case by (simp add: poll_loop_done)
next
  case (Suc d)
  then have lt: "idx st < limit" by simp
  show ?case
  proof (cases "sample pg sel (idx st) \<noteq> [] \<and> sample pg sel (idx st) = previous st")
    case True
    then have a: "sample pg sel (idx st) \<noteq> []" and b: "sample pg sel (idx st) = previous st"
      by blast+
    show ?thesis
      by (simp add: poll_loop_break_trace [OF lt a b] poll_loop_break(2) [OF lt a b] sleeps_append)
  next
    case False
    have s: "sleeps (trace (poll_next pg sel st)) = sleeps (trace st) @ [POLL_INTERVAL]"
      by (simp add: poll_next_def sleeps_append)
    have "idx (poll_next pg sel st) \<le> idx (poll_loop pg sel limit (poll_next pg sel st)) \<and>
          sleeps (trace (poll_loop pg sel limit (poll_next pg sel st))) =
            sleeps (trace (poll_next pg sel st)) @
            replicate (idx (poll_loop pg sel limit (poll_next pg sel st)) - idx (poll_next pg sel st))
              POLL_INTERVAL"
      using Suc.hyps(2) by (intro Suc.hyps(1)) simp
    moreover have "n - idx st = Suc (n - Suc (idx st))" if "Suc (idx st) \<le> n" for n
      using that by arith
    ultimately show ?thesis
      unfolding poll_loop_continue [OF lt False] s by simp
  qed
qed

lemma poll_loop_passed:
  assumes "idx st \<le> k" and "k < idx (poll_loop pg sel limit st)"
  shows "\<not> (sample pg sel k \<noteq> [] \<and> sample pg sel k = prev_at pg sel st k)"
  using assms
proof (induction "limit - idx st" arbitrary: st)
  case 0
  then show ?case by (simp add: poll_loop_done)
next
  case (Suc d)
  then have lt: "idx st < limit" by simp
  show ?case
  proof (cases "sample pg sel (idx st) \<noteq> [] \<and> sample pg sel (idx st) = previous st")
    case True
    then have a: "sample pg sel (idx st) \<noteq> []" and b: "sample pg sel (idx st) = previous st"
      by blast+
    show ?thesis using Suc.prems by (simp add: poll_loop_break(2) [OF lt a b])
  next
    case False
    note unf = poll_loop_continue [OF lt False]
    show ?thesis
    proof (cases "k = idx st")
      case True
      with False show ?thesis by (simp add: prev_at_def)
    next
      case ne: False
      with Suc.prems have "idx (poll_next pg sel st) \<le> k" by simp
      moreover have "k < idx (poll_loop pg sel limit (poll_next pg sel st))"
        using Suc.prems(2) unf by simp
      moreover have "d = limit - idx (poll_next pg sel st)" using Suc.hyps(2) by simp
      ultimately have "\<not> (sample pg sel k \<noteq> [] \<and>
          sample pg sel k = prev_at pg sel (poll_next pg sel st) k)"
        by (intro Suc.hyps(1))
      then show ?thesis using ne Suc.prems(1) by (simp add: prev_at_next)
    qed
  qed
qed

lemma poll_loop_break_prev:
  assumes "finalText st = None" "idx st \<le> limit"
    and "idx (poll_loop pg sel limit st) < limit"
  shows "sample pg sel (idx (poll_loop pg sel limit st)) =
           prev_at pg sel st (idx (poll_loop pg sel limit st))"
  using assms
proof (induction "limit - idx st" arbitrary: st)
  case 0
  then show ?case by (simp add: poll_loop_done)
next
  case (Suc d)
  then have lt: "idx st < limit" by simp
  show ?case
  proof (cases "sample pg sel (idx st) \<noteq> [] \<and> sample pg sel (idx st) = previous st")
    case True
    then have a: "sample pg sel (idx st) \<noteq> []" and b: "sample pg sel (idx st) = previous st"
      by blast+
    show ?thesis using b by (simp add: poll_loop_break(2) [OF lt a b] prev_at_def)
  next
    case False
    note unf = poll_loop_continue [OF lt False]
    have le: "idx (poll_next pg sel st) \<le> idx (poll_loop pg sel limit (poll_next pg sel st))"
      using poll_loop_sleeps_count [of "poll_next pg sel st" pg sel limit] by simp
    have "sample pg sel (idx (poll_loop pg sel limit (poll_next pg sel st))) =
           prev_at pg sel (poll_next pg sel st) (idx (poll_loop pg sel limit (poll_next pg sel st)))"
      using Suc.hyps(2) Suc.prems lt unf by (intro Suc.hyps(1)) simp_all
    then show ?thesis using le unf by (simp add: prev_at_next)
  qed
qed

subsection \<open>The samples of the concrete pages\<close>

lemma code_unit_of_char_eq_iff:
  "(of_char c :: code_unit) = of_char d \<longleftrightarrow> c = d"
proof
  assume "(of_char c :: code_unit) = of_char d"
  then have "(of_nat (of_char c) :: code_unit) = of_nat (of_char d)"
    by (simp only: of_nat_of_char)
  then have "unat (of_nat (of_char c) :: code_unit) = unat (of_nat (of_char d) :: code_unit)"
    by (rule arg_cong)
  moreover have "(of_char c :: nat) < 65536" "(of_char d :: nat) < 65536"
    using nat_of_char_less_256 [of c] nat_of_char_less_256 [of d] by linarith+
  ultimately have "(of_char c :: nat) = of_char d"
    by (simp only: unat_of_nat len_of_numeral_defs) simp
  then show "c = d" by simp
qed simp

lemma utf16_eq_iff [simp]: "utf16 s = utf16 t \<longleftrightarrow> s = t"
  unfolding utf16_def
  by (rule inj_eq [OF inj_mapI]) (simp add: inj_def code_unit_of_char_eq_iff)

lemma utf16_Nil_iff [simp]: "utf16 s = [] \<longleftrightarrow> s = []"
  by (simp add: utf16_def)

lemma sample_hello:
  "sample hello_page turn2 i =
     (if i = 0 then [] else if i = 1 then utf16 ''Hello'' else utf16 ''Hello world'')"
  by (simp add: sample_def hello_page_def hello_doc_def turn2_def css_plain_def trim_def
      is_space_def utf16_def)

lemma prev_at_init:
  "prev_at pg sel poll_init k = (if k = 0 then [] else sample pg sel (k - 1))"
  by (simp add: prev_at_def poll_init_def)

lemma less_3_cases: "(k::nat) < 3 \<longleftrightarrow> k = 0 \<or> k = 1 \<or> k = 2"
  by auto

lemma sample_abc:
  "sample abc_page turn2 i =
     (if i = 0 then utf16 ''A'' else if i = 1 then utf16 ''B'' else utf16 ''C'')"
  by (simp add: sample_def abc_page_def turn2_def css_plain_def trim_def is_space_def utf16_def)

lemma sample_fading:
  "sample fading_page turn2 i = (if i = 0 then utf16 ''A'' else if i = 1 then utf16 ''B'' else [])"
  by (simp add: sample_def fading_page_def turn2_def css_plain_def trim_def is_space_def
      utf16_def)

lemma sample_blank: "sample blank_page turn2 i = []"
  by (simp add: sample_def blank_page_def turn2_def css_plain_def trim_def is_space_def)

section \<open>The claims about the polling loop\<close>

text \<open>
  Claim C1. Let sample \<open>j\<close>, within the budget (\<open>j < limit\<close>), be non-empty and equal to
  the sample immediately before it. Then the loop ends before the budget is spent, in its
  stable branch: it stops at a poll \<open>idx \<le> j\<close> whose sample is non-empty and equals the
  sample before it, and \<^verbatim>\<open>finalText\<close>, which lines 87 to 90 leave as the captured text,
  is that sample. The loop polls sample \<open>j\<close> exactly when no earlier poll has ended it, and
  then it ends at \<open>j\<close> with sample \<open>j\<close> as the result.
\<close>

theorem stable_sample_ends_polling:
  assumes "0 < j" and "j < limit"
    and "sample pg sel j \<noteq> []"
    and "sample pg sel j = sample pg sel (j - 1)"
  shows "idx (poll_loop pg sel limit poll_init) \<le> j \<and>
         0 < idx (poll_loop pg sel limit poll_init) \<and>
         sample pg sel (idx (poll_loop pg sel limit poll_init)) \<noteq> [] \<and>
         sample pg sel (idx (poll_loop pg sel limit poll_init)) =
           sample pg sel (idx (poll_loop pg sel limit poll_init) - 1) \<and>
         finalText (poll_loop pg sel limit poll_init) =
           Some (sample pg sel (idx (poll_loop pg sel limit poll_init))) \<and>
         snd (finish_poll (poll_loop pg sel limit poll_init)) =
           Some (sample pg sel (idx (poll_loop pg sel limit poll_init))) \<and>
         ((\<forall>k. 0 < k \<and> k < j \<longrightarrow>
             \<not> (sample pg sel k \<noteq> [] \<and> sample pg sel k = sample pg sel (k - 1))) \<longrightarrow>
          idx (poll_loop pg sel limit poll_init) = j \<and>
          finalText (poll_loop pg sel limit poll_init) = Some (sample pg sel j) \<and>
          snd (finish_poll (poll_loop pg sel limit poll_init)) = Some (sample pg sel j))"
proof -
  define r where "r = poll_loop pg sel limit poll_init"
  have i0: "idx poll_init = 0" and f0: "finalText poll_init = None"
    by (simp_all add: poll_init_def)
  have le: "idx r \<le> j"
  proof (rule ccontr)
    assume "\<not> idx r \<le> j"
    then have "j < idx r" by simp
    then have "\<not> (sample pg sel j \<noteq> [] \<and> sample pg sel j = prev_at pg sel poll_init j)"
      unfolding r_def by (intro poll_loop_passed) (simp add: i0)
    with assms show False by (simp add: prev_at_init)
  qed
  then have lt: "idx r < limit" using assms(2) by simp
  have ne: "sample pg sel (idx r) \<noteq> []" and ft: "finalText r = Some (sample pg sel (idx r))"
    using poll_loop_cases [of poll_init limit pg sel] lt f0 i0 unfolding r_def by auto
  have pr: "sample pg sel (idx r) = prev_at pg sel poll_init (idx r)"
    using poll_loop_break_prev [of poll_init limit pg sel] lt f0 i0 unfolding r_def by simp
  have pos: "0 < idx r" using ne pr by (cases "idx r = 0") (simp_all add: prev_at_init)
  have rep: "sample pg sel (idx r) = sample pg sel (idx r - 1)"
    using pr pos by (simp add: prev_at_init)
  have fin: "snd (finish_poll r) = Some (sample pg sel (idx r))"
    using ft by (simp add: finish_poll_def)
  have first: "idx r = j"
    if "\<forall>k. 0 < k \<and> k < j \<longrightarrow>
          \<not> (sample pg sel k \<noteq> [] \<and> sample pg sel k = sample pg sel (k - 1))"
    using that le pos ne rep by (cases "idx r = j") auto
  show ?thesis
    unfolding r_def [symmetric] using le pos ne rep ft fin first by auto
qed

text \<open>
  The scenario of the specification, at the budget of a session without reasoning mode:
  the samples are \<^verbatim>\<open>""\<close>, \<^verbatim>\<open>"Hello"\<close>, \<^verbatim>\<open>"Hello world"\<close>, \<^verbatim>\<open>"Hello world"\<close>, and the loop
  stops at the fourth sample.
\<close>

theorem stable_sample_ends_polling_witness:
  "sample hello_page turn2 3 = utf16 ''Hello world'' \<and>
   sample hello_page turn2 2 = utf16 ''Hello world'' \<and>
   finalText (poll_loop hello_page turn2 (POLL_LIMIT False) poll_init) =
     Some (utf16 ''Hello world'') \<and>
   idx (poll_loop hello_page turn2 (POLL_LIMIT False) poll_init) = 3 \<and>
   snd (stabilize hello_page turn2 False) = Some (utf16 ''Hello world'')"
proof -
  have "\<forall>k. 0 < k \<and> k < 3 \<longrightarrow>
          \<not> (sample hello_page turn2 k \<noteq> [] \<and>
             sample hello_page turn2 k = sample hello_page turn2 (k - 1))"
    by (auto simp: less_3_cases sample_hello)
  then show ?thesis
    using stable_sample_ends_polling [of 3 "POLL_LIMIT False" hello_page turn2]
    by (simp add: sample_hello POLL_LIMIT_def stabilize_def)
qed


lemma poll_exhausted:
  assumes "\<forall>k. 0 < k \<and> k < limit \<longrightarrow>
             \<not> (sample pg sel k \<noteq> [] \<and> sample pg sel k = sample pg sel (k - 1))"
  shows "finalText (poll_loop pg sel limit poll_init) = None"
    and "idx (poll_loop pg sel limit poll_init) = limit"
    and "previous (poll_loop pg sel limit poll_init) =
           (if limit = 0 then [] else sample pg sel (limit - 1))"
proof -
  have "finalText (poll_loop pg sel limit poll_init) = finalText poll_init \<and>
        idx (poll_loop pg sel limit poll_init) = limit \<and>
        previous (poll_loop pg sel limit poll_init) = prev_at pg sel poll_init limit"
  proof (rule poll_loop_exhaust_gen)
    show "idx poll_init \<le> limit" by (simp add: poll_init_def)
    show "\<forall>k. idx poll_init \<le> k \<and> k < limit \<longrightarrow>
            \<not> (sample pg sel k \<noteq> [] \<and> sample pg sel k = prev_at pg sel poll_init k)"
      using assms by (auto simp: prev_at_init)
  qed
  moreover have "finalText poll_init = None" by (simp add: poll_init_def)
  ultimately show "finalText (poll_loop pg sel limit poll_init) = None"
    and "idx (poll_loop pg sel limit poll_init) = limit"
    and "previous (poll_loop pg sel limit poll_init) =
           (if limit = 0 then [] else sample pg sel (limit - 1))"
    by (simp_all add: prev_at_init)
qed

lemma finish_poll_exhausted:
  assumes "\<forall>k. 0 < k \<and> k < limit \<longrightarrow>
             \<not> (sample pg sel k \<noteq> [] \<and> sample pg sel k = sample pg sel (k - 1))"
  shows "finish_poll (poll_loop pg sel limit poll_init) =
           (trace (poll_loop pg sel limit poll_init) @ [ConsoleWarn NeverStabilized],
            if limit = 0 \<or> sample pg sel (limit - 1) = [] then None
            else Some (sample pg sel (limit - 1)))"
  using poll_exhausted [OF assms] by (simp add: finish_poll_def)

text \<open>
  Claim C2, as amended. When no sample polled within the budget is non-empty and equal to
  the sample before it, the loop runs the whole budget (\<open>idx = limit\<close>), leaves
  \<^verbatim>\<open>finalText\<close> null, warns, and the captured text is the last sample polled when that
  sample is not empty, and null otherwise (also when an earlier sample was not empty).
  The outcome is a value: nothing is thrown.
\<close>

theorem budget_exhausted_returns_last_sample:
  assumes "\<forall>k. 0 < k \<and> k < limit \<longrightarrow>
             \<not> (sample pg sel k \<noteq> [] \<and> sample pg sel k = sample pg sel (k - 1))"
  shows "finalText (poll_loop pg sel limit poll_init) = None \<and>
         idx (poll_loop pg sel limit poll_init) = limit \<and>
         fst (finish_poll (poll_loop pg sel limit poll_init)) =
           trace (poll_loop pg sel limit poll_init) @ [ConsoleWarn NeverStabilized] \<and>
         snd (finish_poll (poll_loop pg sel limit poll_init)) =
           (if limit = 0 \<or> sample pg sel (limit - 1) = [] then None
            else Some (sample pg sel (limit - 1)))"
  using poll_exhausted(1,2) [OF assms] finish_poll_exhausted [OF assms] by simp

text \<open>The scenario of the specification: \<^verbatim>\<open>"A"\<close>, \<^verbatim>\<open>"B"\<close>, \<^verbatim>\<open>"C"\<close> with a budget of 3.\<close>

theorem budget_exhausted_returns_last_sample_witness:
  "map (sample abc_page turn2) [0, 1, 2] = [utf16 ''A'', utf16 ''B'', utf16 ''C''] \<and>
   idx (poll_loop abc_page turn2 3 poll_init) = 3 \<and>
   snd (finish_poll (poll_loop abc_page turn2 3 poll_init)) = Some (utf16 ''C'')"
proof -
  have "\<forall>k. 0 < k \<and> k < 3 \<longrightarrow>
          \<not> (sample abc_page turn2 k \<noteq> [] \<and>
             sample abc_page turn2 k = sample abc_page turn2 (k - 1))"
    by (auto simp: less_3_cases sample_abc)
  then show ?thesis
    using budget_exhausted_returns_last_sample [of 3 abc_page turn2]
    by (simp add: sample_abc)
qed

text \<open>
  The claim as stated (the last non-empty sample is returned) fails where the last sample
  polled is empty: with the samples \<^verbatim>\<open>"A"\<close>, \<^verbatim>\<open>"B"\<close>, \<^verbatim>\<open>""\<close> and a budget of 3 the
  captured text is null, not \<^verbatim>\<open>"B"\<close>; likewise at the flow's own budget of 300.
\<close>

theorem last_nonempty_sample_counterexample:
  "map (sample fading_page turn2) [0, 1, 2] = [utf16 ''A'', utf16 ''B'', []] \<and>
   idx (poll_loop fading_page turn2 3 poll_init) = 3 \<and>
   snd (finish_poll (poll_loop fading_page turn2 3 poll_init)) = None \<and>
   snd (stabilize fading_page turn2 False) = None"
proof -
  have "\<forall>k. 0 < k \<and> k < limit \<longrightarrow>
          \<not> (sample fading_page turn2 k \<noteq> [] \<and>
             sample fading_page turn2 k = sample fading_page turn2 (k - 1))" for limit
    by (auto simp: sample_fading)
  then show ?thesis
    using poll_exhausted(2) [of 3 fading_page turn2]
      finish_poll_exhausted [of 3 fading_page turn2]
      finish_poll_exhausted [of "POLL_LIMIT False" fading_page turn2]
    by (simp add: sample_fading stabilize_def POLL_LIMIT_def)
qed

text \<open>
  Claim C3. The loop never breaks on an empty sample: \<^verbatim>\<open>finalText\<close> is never the empty
  string, a loop that stops before its budget stops on a non-empty sample, and when every
  sample within the budget is empty the loop runs the whole budget and captures null.
\<close>

theorem empty_sample_never_stable:
  "finalText (poll_loop pg sel limit poll_init) \<noteq> Some [] \<and>
   (idx (poll_loop pg sel limit poll_init) < limit \<longrightarrow>
      sample pg sel (idx (poll_loop pg sel limit poll_init)) \<noteq> []) \<and>
   ((\<forall>k<limit. sample pg sel k = []) \<longrightarrow>
      finalText (poll_loop pg sel limit poll_init) = None \<and>
      idx (poll_loop pg sel limit poll_init) = limit \<and>
      snd (finish_poll (poll_loop pg sel limit poll_init)) = None)"
proof (intro conjI impI)
  show "finalText (poll_loop pg sel limit poll_init) \<noteq> Some []"
    by (rule poll_loop_finalText_nonempty) (simp add: poll_init_def)
next
  assume "idx (poll_loop pg sel limit poll_init) < limit"
  then show "sample pg sel (idx (poll_loop pg sel limit poll_init)) \<noteq> []"
    using poll_loop_cases [of poll_init limit pg sel] by (auto simp: poll_init_def)
next
  assume e: "\<forall>k<limit. sample pg sel k = []"
  then have n: "\<forall>k. 0 < k \<and> k < limit \<longrightarrow>
          \<not> (sample pg sel k \<noteq> [] \<and> sample pg sel k = sample pg sel (k - 1))"
    by simp
  show "finalText (poll_loop pg sel limit poll_init) = None"
    by (rule poll_exhausted(1) [OF n])
  show "idx (poll_loop pg sel limit poll_init) = limit"
    by (rule poll_exhausted(2) [OF n])
  have "limit \<noteq> 0 \<Longrightarrow> sample pg sel (limit - 1) = []"
    using e by simp
  then show "snd (finish_poll (poll_loop pg sel limit poll_init)) = None"
    using finish_poll_exhausted [OF n] by auto
qed

text \<open>A container that holds white space for all 600 polls of a reasoning session.\<close>

theorem empty_sample_never_stable_witness:
  "sample blank_page turn2 0 = [] \<and> sample blank_page turn2 1 = [] \<and>
   finalText (poll_loop blank_page turn2 (POLL_LIMIT True) poll_init) = None \<and>
   idx (poll_loop blank_page turn2 (POLL_LIMIT True) poll_init) = 600 \<and>
   snd (stabilize blank_page turn2 True) = None"
  using empty_sample_never_stable [of blank_page turn2 "POLL_LIMIT True"]
  by (simp add: sample_blank POLL_LIMIT_def stabilize_def)

text \<open>
  Claim C4. The budget of a reasoning session (600 iterations) is strictly greater than
  the budget of a session without reasoning (300), and in either mode the loop sleeps once,
  for the same 1000 ms, after each iteration that does not end it.
\<close>

theorem reasoning_budget_is_larger:
  "POLL_LIMIT False < POLL_LIMIT True \<and>
   POLL_LIMIT True = 600 \<and> POLL_LIMIT False = 300 \<and>
   sleeps (trace (poll_loop pg sel (POLL_LIMIT reason_mode) poll_init)) =
     replicate (idx (poll_loop pg sel (POLL_LIMIT reason_mode) poll_init)) POLL_INTERVAL \<and>
   POLL_INTERVAL = 1000"
  using poll_loop_sleeps_count [of poll_init pg sel "POLL_LIMIT reason_mode"]
  by (simp add: POLL_LIMIT_def poll_init_def POLL_INTERVAL_def)

section \<open>The claim about the API key check\<close>

text \<open>
  Claim C5, as amended. In development mode the request is admitted whatever it carries.
  Otherwise it is admitted if and only if the header is present, is not the empty string,
  and equals the configured secret; every other request (a missing, an empty or a
  different header, or no configured secret) is answered with status 401 and the JSON body
  \<^verbatim>\<open>{ "error": "invalid api key" }\<close>.
\<close>

theorem gatekeeper_admission:
  "(NODE_ENV env = Some ''development'' \<longrightarrow> verifyApiKey env req = Next) \<and>
   (NODE_ENV env \<noteq> Some ''development'' \<longrightarrow>
      (verifyApiKey env req = Next \<longleftrightarrow>
         (\<exists>k. k \<noteq> [] \<and> header req ''ERKUT-API-KEY'' = Some k \<and> ERKUT_API_KEY env = Some k)) \<and>
      (verifyApiKey env req \<noteq> Next \<longrightarrow>
         verifyApiKey env req = Respond 401 [(''error'', ''invalid api key'')]))"
  by (auto simp: verifyApiKey_def Let_def)

text \<open>
  Development mode without a header; the right key, no key and a wrong key outside it.
\<close>

theorem gatekeeper_admission_witness:
  "verifyApiKey \<lparr>NODE_ENV = Some ''development'', ERKUT_API_KEY = Some ''s3cret''\<rparr>
     \<lparr>headers = Map.empty\<rparr> = Next \<and>
   verifyApiKey \<lparr>NODE_ENV = Some ''production'', ERKUT_API_KEY = Some ''s3cret''\<rparr>
     \<lparr>headers = [''erkut-api-key'' \<mapsto> ''s3cret'']\<rparr> = Next \<and>
   verifyApiKey \<lparr>NODE_ENV = Some ''production'', ERKUT_API_KEY = Some ''s3cret''\<rparr>
     \<lparr>headers = Map.empty\<rparr> = Respond 401 [(''error'', ''invalid api key'')] \<and>
   verifyApiKey \<lparr>NODE_ENV = None, ERKUT_API_KEY = Some ''s3cret''\<rparr>
     \<lparr>headers = [''erkut-api-key'' \<mapsto> ''guess'']\<rparr> = Respond 401 [(''error'', ''invalid api key'')]"
  using gatekeeper_admission [of "\<lparr>NODE_ENV = Some ''development'', ERKUT_API_KEY = Some ''s3cret''\<rparr>"
      "\<lparr>headers = Map.empty\<rparr>"]
    gatekeeper_admission [of "\<lparr>NODE_ENV = Some ''production'', ERKUT_API_KEY = Some ''s3cret''\<rparr>"
      "\<lparr>headers = [''erkut-api-key'' \<mapsto> ''s3cret'']\<rparr>"]
    gatekeeper_admission [of "\<lparr>NODE_ENV = Some ''production'', ERKUT_API_KEY = Some ''s3cret''\<rparr>"
      "\<lparr>headers = Map.empty\<rparr>"]
    gatekeeper_admission [of "\<lparr>NODE_ENV = None, ERKUT_API_KEY = Some ''s3cret''\<rparr>"
      "\<lparr>headers = [''erkut-api-key'' \<mapsto> ''guess'']\<rparr>"]
  by (simp add: header_def to_lower_def)

text \<open>
  The claim as stated (outside permissive mode, admitted if and only if the header equals
  the secret) fails for the empty string: an empty header equals an empty configured
  secret, and \<^verbatim>\<open>!clientKey\<close> rejects it.
\<close>

theorem empty_key_counterexample:
  "NODE_ENV \<lparr>NODE_ENV = Some ''production'', ERKUT_API_KEY = Some ''''\<rparr> \<noteq> Some ''development'' \<and>
   header \<lparr>headers = [''erkut-api-key'' \<mapsto> '''']\<rparr> ''ERKUT-API-KEY'' =
     ERKUT_API_KEY \<lparr>NODE_ENV = Some ''production'', ERKUT_API_KEY = Some ''''\<rparr> \<and>
   verifyApiKey \<lparr>NODE_ENV = Some ''production'', ERKUT_API_KEY = Some ''''\<rparr>
     \<lparr>headers = [''erkut-api-key'' \<mapsto> '''']\<rparr> = Respond 401 [(''error'', ''invalid api key'')]"
  by (simp add: verifyApiKey_def header_def to_lower_def)

section \<open>The claim about the pattern of the thread identifier\<close>

lemma takeWhile_nonempty_iff: "takeWhile P xs \<noteq> [] \<longleftrightarrow> xs \<noteq> [] \<and> P (hd xs)"
  by (cases xs) simp_all

lemma take3_eq: "take 3 xs = [a, b, c] \<Longrightarrow> xs = [a, b, c] @ drop 3 xs"
  by (metis append_take_drop_id)

lemma match_thread_hit:
  assumes "take 3 (c # cs) = ''/c/'' \<and> takeWhile is_hex_hyphen (drop 3 (c # cs)) \<noteq> []"
  shows "match_thread (c # cs) = Some (takeWhile is_hex_hyphen (drop 3 (c # cs)))"
  by (subst match_thread.simps) (rule if_P [OF assms])

lemma match_thread_miss:
  assumes "\<not> (take 3 (c # cs) = ''/c/'' \<and> takeWhile is_hex_hyphen (drop 3 (c # cs)) \<noteq> [])"
  shows "match_thread (c # cs) = match_thread cs"
  by (subst match_thread.simps) (rule if_not_P [OF assms])

lemma match_thread_Some:
  assumes "match_thread url = Some t"
  shows "t \<noteq> [] \<and> (\<forall>c\<in>set t. is_hex_hyphen c) \<and>
         (\<exists>pre post. url = pre @ ''/c/'' @ t @ post \<and> (post = [] \<or> \<not> is_hex_hyphen (hd post)))"
  using assms
proof (induction url)
  case Nil
  then show ?case by simp
next
  case (Cons c cs)
  show ?case
  proof (cases "take 3 (c # cs) = ''/c/'' \<and> takeWhile is_hex_hyphen (drop 3 (c # cs)) \<noteq> []")
    case True
    have "match_thread (c # cs) = Some (takeWhile is_hex_hyphen (drop 3 (c # cs)))"
      by (rule match_thread_hit [OF True])
    with Cons.prems have t: "t = takeWhile is_hex_hyphen (drop 3 (c # cs))"
      by (simp del: match_thread.simps)
    from True have u: "c # cs = ''/c/'' @ drop 3 (c # cs)" by (intro take3_eq) simp
    have "c # cs = [] @ ''/c/'' @ t @ dropWhile is_hex_hyphen (drop 3 (c # cs))"
      unfolding t using u by simp
    moreover have "dropWhile is_hex_hyphen (drop 3 (c # cs)) = [] \<or>
        \<not> is_hex_hyphen (hd (dropWhile is_hex_hyphen (drop 3 (c # cs))))"
      using hd_dropWhile by blast
    moreover have "t \<noteq> []" using True t by simp
    moreover have "\<forall>c\<in>set t. is_hex_hyphen c" unfolding t by (auto dest: set_takeWhileD)
    ultimately show ?thesis by blast
  next
    case False
    have "match_thread (c # cs) = match_thread cs"
      by (rule match_thread_miss [OF False])
    with Cons.prems have "match_thread cs = Some t"
      by (simp del: match_thread.simps)
    from Cons.IH [OF this] obtain pre post where
      "t \<noteq> []" "\<forall>c\<in>set t. is_hex_hyphen c" "cs = pre @ ''/c/'' @ t @ post"
      "post = [] \<or> \<not> is_hex_hyphen (hd post)" by blast
    then have "c # cs = (c # pre) @ ''/c/'' @ t @ post" by simp
    with \<open>t \<noteq> []\<close> \<open>\<forall>c\<in>set t. is_hex_hyphen c\<close> \<open>post = [] \<or> \<not> is_hex_hyphen (hd post)\<close>
    show ?thesis by blast
  qed
qed

lemma match_thread_None:
  "match_thread url = None \<longleftrightarrow>
     (\<forall>pre post. url = pre @ ''/c/'' @ post \<longrightarrow> post = [] \<or> \<not> is_hex_hyphen (hd post))"
proof (induction url)
  case Nil
  then show ?case by simp
next
  case (Cons c cs)
  show ?case
  proof (cases "take 3 (c # cs) = ''/c/'' \<and> takeWhile is_hex_hyphen (drop 3 (c # cs)) \<noteq> []")
    case True
    then have u: "c # cs = [] @ ''/c/'' @ drop 3 (c # cs)" using take3_eq [of "c # cs"] by simp
    from True have "drop 3 (c # cs) \<noteq> [] \<and> is_hex_hyphen (hd (drop 3 (c # cs)))"
      by (simp add: takeWhile_nonempty_iff)
    with u have "\<not> (\<forall>pre post. c # cs = pre @ ''/c/'' @ post \<longrightarrow>
        post = [] \<or> \<not> is_hex_hyphen (hd post))" by blast
    moreover have "match_thread (c # cs) \<noteq> None" by (simp only: match_thread_hit [OF True]) simp
    ultimately show ?thesis by blast
  next
    case False
    then have m: "match_thread (c # cs) = match_thread cs" by (rule match_thread_miss)
    have "(\<forall>pre post. c # cs = pre @ ''/c/'' @ post \<longrightarrow> post = [] \<or> \<not> is_hex_hyphen (hd post))
        \<longleftrightarrow> (\<forall>pre post. cs = pre @ ''/c/'' @ post \<longrightarrow> post = [] \<or> \<not> is_hex_hyphen (hd post))"
      (is "?L \<longleftrightarrow> ?R")
    proof
      assume l: ?L
      show ?R
      proof (intro allI impI)
        fix pre post assume "cs = pre @ ''/c/'' @ post"
        then have "c # cs = (c # pre) @ ''/c/'' @ post" by simp
        with l show "post = [] \<or> \<not> is_hex_hyphen (hd post)" by blast
      qed
    next
      assume r: ?R
      show ?L
      proof (intro allI impI)
        fix pre post assume e: "c # cs = pre @ ''/c/'' @ post"
        show "post = [] \<or> \<not> is_hex_hyphen (hd post)"
        proof (cases pre)
          case Nil
          with e have eq: "c # cs = ''/c/'' @ post" by simp
          show ?thesis using False unfolding eq by (simp add: takeWhile_nonempty_iff)
        next
          case (Cons p ps)
          with e have "cs = ps @ ''/c/'' @ post" by simp
          with r show ?thesis by blast
        qed
      qed
    qed
    with m Cons.IH show ?thesis by simp
  qed
qed

lemma match_thread_base:
  "match_thread (base @ ''/c/'' @ seg) =
     (if takeWhile is_hex_hyphen seg \<noteq> [] then Some (takeWhile is_hex_hyphen seg)
      else match_thread seg)"
proof (cases "takeWhile is_hex_hyphen seg \<noteq> []")
  case True
  then show ?thesis by (simp add: base_def)
next
  case False
  then have "seg = [] \<or> \<not> is_hex_hyphen (hd seg)" by (simp add: takeWhile_nonempty_iff)
  moreover have "is_hex_hyphen CHR ''c''" by (simp add: is_hex_hyphen_def)
  ultimately have "take 3 (CHR ''/'' # seg) \<noteq> ''/c/''" by (cases seg) auto
  with False show ?thesis by (simp add: base_def)
qed

text \<open>
  Claim C9, as amended. A thread identifier, when there is one, is a non-empty run of
  lower-case hexadecimal digits and hyphens that directly follows a \<^verbatim>\<open>/c/\<close> of the URL
  and is not followed by a further such character: the longest matching prefix of what
  follows that \<^verbatim>\<open>/c/\<close>, and so never a segment that holds another character. The result
  is null exactly when no \<^verbatim>\<open>/c/\<close> of the URL is directly followed by such a character.
  For a location \<^verbatim>\<open>https://chatgpt.com/c/<segment>\<close>: the longest matching prefix of the
  segment when that prefix is not empty; otherwise the pattern is tried further right,
  inside the segment.
\<close>

theorem thread_id_is_hex_run:
  "(\<forall>t. match_thread url = Some t \<longrightarrow>
      t \<noteq> [] \<and> (\<forall>c\<in>set t. is_hex_hyphen c) \<and>
      (\<exists>pre post. url = pre @ ''/c/'' @ t @ post \<and>
         (post = [] \<or> \<not> is_hex_hyphen (hd post)))) \<and>
   (match_thread url = None \<longleftrightarrow>
      (\<forall>pre post. url = pre @ ''/c/'' @ post \<longrightarrow>
         post = [] \<or> \<not> is_hex_hyphen (hd post))) \<and>
   match_thread (base @ ''/c/'' @ seg) =
     (if takeWhile is_hex_hyphen seg \<noteq> [] then Some (takeWhile is_hex_hyphen seg)
      else match_thread seg)"
  using match_thread_Some [of url] match_thread_None [of url] match_thread_base [of seg]
  by blast

text \<open>
  A segment with upper-case letters after a matching prefix, and a segment without a
  matching prefix.
\<close>

theorem thread_id_is_hex_run_witness:
  "match_thread ''https://chatgpt.com/c/abc-123XYZ'' = Some ''abc-123'' \<and>
   match_thread ''https://chatgpt.com/c/XYZ'' = None"
  using thread_id_is_hex_run [of "''https://chatgpt.com/c/abc-123XYZ''" "''abc-123XYZ''"]
    thread_id_is_hex_run [of "''https://chatgpt.com/c/XYZ''" "''XYZ''"]
  by (simp add: base_def is_hex_hyphen_def)

text \<open>
  The claim as stated (null when no character of the segment matches) fails when the
  pattern matches further right: in \<^verbatim>\<open>https://chatgpt.com/c/x/c/1\<close> the segment after the
  first \<^verbatim>\<open>/c/\<close> starts with \<^verbatim>\<open>x\<close>, and the result is \<^verbatim>\<open>"1"\<close>.
\<close>

theorem later_match_counterexample:
  "match_thread ''https://chatgpt.com/c/x/c/1'' = Some ''1''"
  by (simp add: is_hex_hyphen_def)

section \<open>Properties of the flow\<close>

lemma fst_bind_flow:
  "fst (bind_flow m f) = (case snd m of Inl e \<Rightarrow> fst m | Inr x \<Rightarrow> fst m @ fst (f x))"
  by (cases m) (auto simp: bind_flow_def split: sum.splits prod.splits)

lemma snd_bind_flow:
  "snd (bind_flow m f) = (case snd m of Inl e \<Rightarrow> Inl e | Inr x \<Rightarrow> snd (f x))"
  by (cases m) (auto simp: bind_flow_def split: sum.splits prod.splits)

lemma snd_toggle_modes:
  "snd (toggle_modes pg opts) =
     (if reason opts \<and> \<not> click_ok pg ''button::-p-aria(Reason)''
      then Inl (LocatorFailed ''button::-p-aria(Reason)'')
      else if search opts \<and> \<not> click_ok pg ''button::-p-aria(Search)''
      then Inl (LocatorFailed ''button::-p-aria(Search)'')
      else Inr ())"
  by (simp add: toggle_modes_def snd_bind_flow click_def)

lemma snd_navigate:
  "snd (navigate pg opts) =
     (if goto_ok pg (target_url (threadId opts)) then Inr ()
      else Inl (NavigationTimeout (target_url (threadId opts)) 120000))"
  by (simp add: navigate_def Let_def)

lemma snd_prepare_editor:
  "snd (prepare_editor pg) =
     (if editor_ok pg then Inr () else Inl (SelectorTimeout ''#prompt-textarea''))"
  by (simp add: prepare_editor_def Let_def)

lemma snd_select_container:
  "snd (select_container pg) =
     (if \<not> selector_valid pg (mdSelector (pop (article_ids (doc_at_select pg))))
      then Inl (SelectorSyntaxError (mdSelector (pop (article_ids (doc_at_select pg)))))
      else if wait_finds pg (mdSelector (pop (article_ids (doc_at_select pg))))
      then Inr (mdSelector (pop (article_ids (doc_at_select pg))))
      else Inl (MarkdownTimeout (mdSelector (pop (article_ids (doc_at_select pg)))) 30000))"
  by (simp add: select_container_def Let_def)

lemma snd_clean:
  "snd (clean convert final) = convert final"
  by (simp add: clean_def split: sum.splits)

text \<open>When the flow returns, and what.\<close>

lemma flow_result:
  "snd (promptWithOptions convert pg opts prompt) =
     (if \<not> submits pg opts then
        (if \<not> goto_ok pg (target_url (threadId opts))
         then Inl (NavigationTimeout (target_url (threadId opts)) 120000)
         else if reason opts \<and> \<not> click_ok pg ''button::-p-aria(Reason)''
         then Inl (LocatorFailed ''button::-p-aria(Reason)'')
         else if search opts \<and> \<not> click_ok pg ''button::-p-aria(Search)''
         then Inl (LocatorFailed ''button::-p-aria(Search)'')
         else Inl (SelectorTimeout ''#prompt-textarea''))
      else
        (case snd (select_container pg) of
           Inl e \<Rightarrow> Inl e
         | Inr sel \<Rightarrow>
             (case convert (snd (stabilize pg sel (reason opts))) of
                Inl e \<Rightarrow> Inl e
              | Inr cleaned \<Rightarrow>
                  Inr \<lparr>r_threadId = match_thread (url_after pg), r_response = cleaned\<rparr>)))"
  by (auto simp: promptWithOptions_def snd_bind_flow snd_navigate snd_toggle_modes
      snd_prepare_editor submit_prompt_def snd_clean resolve_thread_def Let_def submits_def
      split: sum.splits)


lemma flow_events:
  assumes "submits pg opts"
  shows "fst (promptWithOptions convert pg opts prompt) =
     fst (navigate pg opts) @ fst (toggle_modes pg opts) @ fst (prepare_editor pg) @
     fst (submit_prompt prompt) @ fst (select_container pg) @
     (case snd (select_container pg) of
        Inl e \<Rightarrow> []
      | Inr sel \<Rightarrow>
          fst (stabilize pg sel (reason opts)) @
          fst (clean convert (snd (stabilize pg sel (reason opts)))) @
          (case convert (snd (stabilize pg sel (reason opts))) of
             Inl e \<Rightarrow> []
           | Inr cleaned \<Rightarrow> fst (resolve_thread pg)))"
  using assms
  by (auto simp: promptWithOptions_def fst_bind_flow snd_bind_flow snd_navigate
      snd_toggle_modes snd_prepare_editor submit_prompt_def snd_clean submits_def
      split: sum.splits)

lemma map_filter_append: "List.map_filter f (xs @ ys) = List.map_filter f xs @ List.map_filter f ys"
  by (simp add: List.map_filter_def)

lemma poll_loop_silent:
  assumes "f (Query sel) = None" and "\<And>m. f (ConsoleLog m) = None"
    and "\<And>n. f (WaitForTimeout n) = None"
  shows "List.map_filter f (trace (poll_loop pg sel limit st)) = List.map_filter f (trace st)"
proof (induction "limit - idx st" arbitrary: st)
  case 0
  then show ?case by (simp add: poll_loop_done)
next
  case (Suc d)
  then have lt: "idx st < limit" by simp
  show ?case
  proof (cases "sample pg sel (idx st) \<noteq> [] \<and> sample pg sel (idx st) = previous st")
    case True
    then have a: "sample pg sel (idx st) \<noteq> []" and b: "sample pg sel (idx st) = previous st"
      by blast+
    show ?thesis
      by (simp add: poll_loop_break_trace [OF lt a b] map_filter_append assms)
  next
    case False
    have "List.map_filter f (trace (poll_loop pg sel limit (poll_next pg sel st))) =
          List.map_filter f (trace (poll_next pg sel st))"
      using Suc.hyps(2) by (intro Suc.hyps(1)) simp
    also have "\<dots> = List.map_filter f (trace st)"
      by (simp add: poll_next_def map_filter_append assms)
    finally show ?thesis by (simp add: poll_loop_continue [OF lt False])
  qed
qed

lemma stabilize_silent:
  assumes "f (Query sel) = None" and "\<And>m. f (ConsoleLog m) = None"
    and "\<And>n. f (WaitForTimeout n) = None" and "\<And>m. f (ConsoleWarn m) = None"
  shows "List.map_filter f (fst (stabilize pg sel m)) = []"
  using poll_loop_silent [of f sel pg "POLL_LIMIT m" poll_init, OF assms(1-3)]
  by (simp add: stabilize_def finish_poll_def map_filter_append assms(2,4) poll_init_def)

lemma fst_navigate:
  "fst (navigate pg opts) =
     [ConsoleLog (LoadingUrl (target_url (threadId opts))), Goto (target_url (threadId opts)) 120000]"
  by (simp add: navigate_def Let_def)

lemma fst_toggle_modes:
  "fst (toggle_modes pg opts) =
     (if reason opts then [ConsoleLog EnablingReason, Click ''button::-p-aria(Reason)''] else []) @
     (if reason opts \<and> \<not> click_ok pg ''button::-p-aria(Reason)'' then []
      else if search opts then [ConsoleLog EnablingSearch, Click ''button::-p-aria(Search)'']
      else [])"
  by (simp add: toggle_modes_def fst_bind_flow snd_bind_flow click_def)

lemma fst_prepare_editor:
  "fst (prepare_editor pg) =
     [ConsoleLog ClearingEditor, WaitForSelector ''#prompt-textarea''] @
     (if editor_ok pg then [EditorClick, EditorClear] else [])"
  by (simp add: prepare_editor_def Let_def)

lemma fst_select_container:
  "fst (select_container pg) =
     [ConsoleLog WaitingForContainer, WaitForTimeout 1000, ListArticles,
      WaitForMarkdown (mdSelector (pop (article_ids (doc_at_select pg)))) 30000]"
  by (simp add: select_container_def Let_def)

lemma fst_clean:
  "fst (clean convert final) =
     Convert final #
     (case convert final of
        Inl e \<Rightarrow> []
      | Inr cleaned \<Rightarrow>
          ConsoleLog (CleanedObject cleaned) #
          (case cleaned of
             None \<Rightarrow> [ConsoleError FailedToExtract]
           | Some c \<Rightarrow> [ConsoleLog (CleanedResponse c)]))"
  by (simp add: clean_def split: sum.splits)

lemma fst_resolve_thread:
  "fst (resolve_thread pg) =
     [ReadUrl, ConsoleLog (ResolvedThreadId (match_thread (url_after pg)))]"
  by (simp add: resolve_thread_def Let_def)

lemmas stage_events =
  fst_navigate fst_toggle_modes fst_prepare_editor fst_select_container fst_clean
  fst_resolve_thread

lemma flow_events_early:
  assumes "\<not> submits pg opts"
  shows "fst (promptWithOptions convert pg opts prompt) =
     fst (navigate pg opts) @
     (if goto_ok pg (target_url (threadId opts))
      then fst (toggle_modes pg opts) @
           (if snd (toggle_modes pg opts) = Inr () then fst (prepare_editor pg) else [])
      else [])"
  using assms
  by (auto simp: promptWithOptions_def fst_bind_flow snd_bind_flow snd_navigate
      snd_toggle_modes snd_prepare_editor submits_def
      split: sum.splits)


lemma typed_silent [simp]:
  "typed (fst (stabilize pg sel m)) = []"
  unfolding typed_def by (rule stabilize_silent) simp_all

lemma console_errors_silent [simp]:
  "console_errors (fst (stabilize pg sel m)) = []"
  unfolding console_errors_def by (rule stabilize_silent) simp_all

lemma projections_Nil [simp]:
  "typed [] = []" "console_errors [] = []" "queries [] = []"
  by (simp_all add: typed_def console_errors_def queries_def)

lemma typed_append: "typed (xs @ ys) = typed xs @ typed ys"
  by (simp add: typed_def map_filter_append)


lemma queries_append: "queries (xs @ ys) = queries xs @ queries ys"
  by (simp add: queries_def map_filter_append)

lemma typed_stages:
  "typed (fst (navigate pg opts)) = []"
  "typed (fst (toggle_modes pg opts)) = []"
  "typed (fst (prepare_editor pg)) = []"
  "typed (fst (submit_prompt prompt)) = [promptContext @ prompt]"
  "typed (fst (select_container pg)) = []"
  "typed (fst (clean convert final)) = []"
  "typed (fst (resolve_thread pg)) = []"
  by (simp_all add: typed_def stage_events submit_prompt_def split: sum.splits option.splits)



lemma queries_stages:
  "queries (fst (navigate pg opts)) = []"
  "queries (fst (toggle_modes pg opts)) = []"
  "queries (fst (prepare_editor pg)) = []"
  "queries (fst (submit_prompt prompt)) = []"
  "queries (fst (select_container pg)) = []"
  by (simp_all add: queries_def stage_events submit_prompt_def)


lemma flow_timeout_queries:
  assumes "submits pg opts" and "snd (select_container pg) = Inl e"
  shows "snd (promptWithOptions convert pg opts prompt) = Inl e"
    and "queries (fst (promptWithOptions convert pg opts prompt)) = []"
  using assms
  by (simp_all add: flow_result flow_events [OF assms(1)] queries_append queries_stages)

subsection \<open>The flow on the concrete pages\<close>

lemma stabilize_stable:
  assumes "0 < j" and "j < POLL_LIMIT m"
    and "sample pg sel j \<noteq> []"
    and "sample pg sel j = sample pg sel (j - 1)"
    and "\<forall>k. 0 < k \<and> k < j \<longrightarrow>
           \<not> (sample pg sel k \<noteq> [] \<and> sample pg sel k = sample pg sel (k - 1))"
  shows "snd (stabilize pg sel m) = Some (sample pg sel j)"
proof -
  have "finalText (poll_loop pg sel (POLL_LIMIT m) poll_init) = Some (sample pg sel j) \<and>
        idx (poll_loop pg sel (POLL_LIMIT m) poll_init) = j"
  proof (rule poll_loop_stable_gen)
    show "idx poll_init \<le> j" by (simp add: poll_init_def)
    show "j < POLL_LIMIT m" by fact
    show "sample pg sel j \<noteq> []" by fact
    show "sample pg sel j = prev_at pg sel poll_init j"
      using assms(1,4) by (simp add: prev_at_init)
    show "\<forall>k. idx poll_init \<le> k \<and> k < j \<longrightarrow>
           \<not> (sample pg sel k \<noteq> [] \<and> sample pg sel k = prev_at pg sel poll_init k)"
      using assms(5) by (auto simp: prev_at_init)
  qed
  then show ?thesis by (simp add: stabilize_def finish_poll_def)
qed

lemma stabilize_hello: "snd (stabilize hello_page turn2 m) = Some (utf16 ''Hello world'')"
proof -
  have "\<forall>k. 0 < k \<and> k < 3 \<longrightarrow>
          \<not> (sample hello_page turn2 k \<noteq> [] \<and>
             sample hello_page turn2 k = sample hello_page turn2 (k - 1))"
    by (auto simp: less_3_cases sample_hello)
  then show ?thesis
    using stabilize_stable [of 3 m hello_page turn2]
    by (simp add: sample_hello POLL_LIMIT_def)
qed


lemma sample_undefined:
  "sample undefined_page (ArticleMarkdown ''undefined'') i = utf16 ''Hi''"
  by (simp add: sample_def undefined_page_def undefined_doc_def css_plain_def trim_def
      is_space_def utf16_def)

lemma stabilize_undefined:
  "snd (stabilize undefined_page (ArticleMarkdown ''undefined'') m) = Some (utf16 ''Hi'')"
proof -
  have "1 < POLL_LIMIT m" by (simp add: POLL_LIMIT_def)
  moreover have "\<forall>k. 0 < k \<and> k < 1 \<longrightarrow>
      \<not> (sample undefined_page (ArticleMarkdown ''undefined'') k \<noteq> [] \<and>
         sample undefined_page (ArticleMarkdown ''undefined'') k =
         sample undefined_page (ArticleMarkdown ''undefined'') (k - 1))"
    by simp
  ultimately show ?thesis
    using stabilize_stable [of 1 m undefined_page "ArticleMarkdown ''undefined''"]
    by (simp add: sample_undefined)
qed

lemma submits_plain:
  "submits hello_page opts" "submits blank_page opts" "submits undefined_page opts"
  "submits late_page opts"
  by (simp_all add: submits_def hello_page_def blank_page_def undefined_page_def late_page_def)

lemma select_hello: "snd (select_container hello_page) = Inr turn2"
  by (simp add: snd_select_container hello_page_def hello_doc_def article_ids_def pop_def
      mdSelector_def turn2_def css_plain_def)


lemma select_undefined:
  "snd (select_container undefined_page) = Inr (ArticleMarkdown ''undefined'')"
  by (simp add: snd_select_container undefined_page_def undefined_doc_def article_ids_def
      pop_def mdSelector_def css_plain_def)

lemma url_hello: "match_thread (url_after hello_page) = Some ''abc-123''"
  by (simp add: hello_page_def is_hex_hyphen_def)

lemma url_plain:
  "match_thread (url_after blank_page) = None"
  "match_thread (url_after undefined_page) = None"
  by (simp_all add: blank_page_def undefined_page_def is_hex_hyphen_def)

lemma takeWhile_run:
  assumes "\<forall>c\<in>set seg. P c" and "rest = [] \<or> \<not> P (hd rest)"
  shows "takeWhile P (seg @ rest) = seg"
proof -
  have "takeWhile P rest = []" using assms(2) takeWhile_nonempty_iff [of P rest] by blast
  then show ?thesis using assms(1) by (simp add: takeWhile_append2)
qed

lemma match_thread_whole:
  assumes "seg \<noteq> []" and "\<forall>c\<in>set seg. is_hex_hyphen c"
    and "rest = [] \<or> \<not> is_hex_hyphen (hd rest)"
  shows "match_thread (base @ ''/c/'' @ seg @ rest) = Some seg"
proof -
  have tw: "takeWhile is_hex_hyphen (seg @ rest) = seg"
    using assms(2,3) by (rule takeWhile_run)
  show ?thesis unfolding match_thread_base tw using assms(1) by simp
qed

text \<open>The match is the leftmost one.\<close>

lemma match_thread_leftmost:
  assumes "url = pre @ ''/c/'' @ post" and "post \<noteq> []" and "is_hex_hyphen (hd post)"
    and "\<forall>pre' post'. url = pre' @ ''/c/'' @ post' \<and> length pre' < length pre \<longrightarrow>
           post' = [] \<or> \<not> is_hex_hyphen (hd post')"
  shows "match_thread url = Some (takeWhile is_hex_hyphen post)"
  using assms
proof (induction pre arbitrary: url)
  case Nil
  then have u: "url = CHR ''/'' # (''c/'' @ post)" by simp
  have "take 3 (CHR ''/'' # (''c/'' @ post)) = ''/c/'' \<and>
        takeWhile is_hex_hyphen (drop 3 (CHR ''/'' # (''c/'' @ post))) \<noteq> []"
    using Nil.prems(2,3) by (simp add: takeWhile_nonempty_iff)
  from match_thread_hit [OF this] show ?case unfolding u by simp
next
  case (Cons p ps)
  then have u: "url = p # (ps @ ''/c/'' @ post)" by simp
  have miss: "\<not> (take 3 (p # (ps @ ''/c/'' @ post)) = ''/c/'' \<and>
        takeWhile is_hex_hyphen (drop 3 (p # (ps @ ''/c/'' @ post))) \<noteq> [])"
  proof
    assume h: "take 3 (p # (ps @ ''/c/'' @ post)) = ''/c/'' \<and>
        takeWhile is_hex_hyphen (drop 3 (p # (ps @ ''/c/'' @ post))) \<noteq> []"
    then have "url = [] @ ''/c/'' @ drop 3 url"
      unfolding u using take3_eq [of "p # (ps @ ''/c/'' @ post)"] by simp
    moreover have "length ([] :: string) < length (p # ps)" by simp
    ultimately have "drop 3 url = [] \<or> \<not> is_hex_hyphen (hd (drop 3 url))"
      using Cons.prems(4) by blast
    with h show False unfolding u by (simp add: takeWhile_nonempty_iff)
  qed
  have "match_thread (ps @ ''/c/'' @ post) = Some (takeWhile is_hex_hyphen post)"
  proof (rule Cons.IH [OF refl Cons.prems(2,3)], intro allI impI)
    fix pre' post'
    assume "ps @ ''/c/'' @ post = pre' @ ''/c/'' @ post' \<and> length pre' < length ps"
    then have "url = (p # pre') @ ''/c/'' @ post' \<and> length (p # pre') < length (p # ps)"
      unfolding u by simp
    with Cons.prems(4) show "post' = [] \<or> \<not> is_hex_hyphen (hd post')" by blast
  qed
  then show ?case unfolding u using match_thread_miss [OF miss] by simp
qed

lemma flow_hello:
  "snd (promptWithOptions text_converter hello_page opts prompt) =
     Inr \<lparr>r_threadId = Some ''abc-123'', r_response = Some (utf16 ''Hello world'')\<rparr>"
  by (simp add: flow_result submits_plain select_hello stabilize_hello url_hello
      text_converter_def)


lemma select_no_article:
  assumes "doc_at_select pg = []"
    and "\<forall>d\<in>set (docs_during_wait pg). query d (ArticleMarkdown ''undefined'') = None"
  shows "snd (select_container pg) = Inl (MarkdownTimeout (ArticleMarkdown ''undefined'') 30000)"
  using assms
  by (simp add: snd_select_container article_ids_def pop_def mdSelector_def css_plain_def
      list_ex_iff)

text \<open>Where \<^verbatim>\<open>/c/\<close> stands in two concrete locations.\<close>

lemma occurrence_at:
  assumes "u = pre' @ s @ post'"
  shows "take (length s) (drop (length pre') u) = s"
  using assms by simp

lemma gpt_url_no_earlier:
  "\<forall>pre' post'. ''https://chatgpt.com/g/g-1/c/abc-123?model=x'' = pre' @ ''/c/'' @ post' \<and>
      length pre' < length ''https://chatgpt.com/g/g-1'' \<longrightarrow>
      post' = [] \<or> \<not> is_hex_hyphen (hd post')"
proof (intro allI impI)
  fix pre' post'
  assume h: "''https://chatgpt.com/g/g-1/c/abc-123?model=x'' = pre' @ ''/c/'' @ post' \<and>
      length pre' < length ''https://chatgpt.com/g/g-1''"
  have n: "\<forall>n<25. take (length ''/c/'')
      (drop n ''https://chatgpt.com/g/g-1/c/abc-123?model=x'') \<noteq> ''/c/''"
    by (simp add: eval_nat_numeral All_less_Suc)
  from h have "take (length ''/c/'')
      (drop (length pre') ''https://chatgpt.com/g/g-1/c/abc-123?model=x'') = ''/c/''"
    by (intro occurrence_at) blast
  moreover from h have "length pre' < 25" by simp
  ultimately show "post' = [] \<or> \<not> is_hex_hyphen (hd post')"
    using n by blast
qed


lemma root_url_no_occurrence:
  "\<forall>pre post. ''https://chatgpt.com/'' = pre @ ''/c/'' @ post \<longrightarrow>
      post = [] \<or> \<not> is_hex_hyphen (hd post)"
proof (intro allI impI)
  fix pre post
  assume h: "''https://chatgpt.com/'' = pre @ ''/c/'' @ post"
  have n: "\<forall>n<18. take (length ''/c/'') (drop n ''https://chatgpt.com/'') \<noteq> ''/c/''"
    by (simp add: eval_nat_numeral All_less_Suc)
  from h have "take (length ''/c/'') (drop (length pre) ''https://chatgpt.com/'') = ''/c/''"
    by (rule occurrence_at)
  moreover from h have "length ''https://chatgpt.com/'' = length (pre @ ''/c/'' @ post)"
    by (rule arg_cong)
  then have "length pre < 18" by simp
  ultimately show "post = [] \<or> \<not> is_hex_hyphen (hd post)"
    using n by blast
qed

section \<open>The claims about the flow\<close>

text \<open>
  Claim C6. Whenever the flow returns, the \<^verbatim>\<open>threadId\<close> of its result is what the pattern
  extracts from the page's location after the polling loop, a function of that location
  alone: two runs on the same page return the same \<^verbatim>\<open>threadId\<close> whatever the
  \<^verbatim>\<open>threadId\<close>, the modes, the prompt or the converter of either request. What is
  extracted, for every location: where the location has a \<^verbatim>\<open>/c/\<close> followed by a segment
  of lower-case hexadecimal digits and hyphens that ends at the end of the location or at
  another character, and no \<^verbatim>\<open>/c/\<close> further left is followed by such a character, the
  value is that segment; the value is null exactly when no \<^verbatim>\<open>/c/\<close> of the location is
  followed by such a character. So \<^verbatim>\<open>https://chatgpt.com/c/<segment>\<close>, with or without
  a query string behind the segment, yields the segment, and \<^verbatim>\<open>.../c/abc-123\<close> yields
  \<^verbatim>\<open>"abc-123"\<close>.
\<close>

theorem thread_id_from_location:
  "(snd (promptWithOptions convert pg opts prompt) = Inr r \<longrightarrow>
      r_threadId r = match_thread (url_after pg)) \<and>
   (snd (promptWithOptions convert pg opts prompt) = Inr r \<and>
    snd (promptWithOptions convert' pg opts' prompt') = Inr r' \<longrightarrow>
      r_threadId r' = r_threadId r) \<and>
   (url = pre @ ''/c/'' @ seg @ rest \<and>
    seg \<noteq> [] \<and> (\<forall>c\<in>set seg. is_hex_hyphen c) \<and>
    (rest = [] \<or> \<not> is_hex_hyphen (hd rest)) \<and>
    (\<forall>pre' post'. url = pre' @ ''/c/'' @ post' \<and> length pre' < length pre \<longrightarrow>
       post' = [] \<or> \<not> is_hex_hyphen (hd post')) \<longrightarrow>
      match_thread url = Some seg) \<and>
   (match_thread url = None \<longleftrightarrow>
      (\<forall>pre post. url = pre @ ''/c/'' @ post \<longrightarrow>
         post = [] \<or> \<not> is_hex_hyphen (hd post))) \<and>
   (seg \<noteq> [] \<and> (\<forall>c\<in>set seg. is_hex_hyphen c) \<and>
    (rest = [] \<or> \<not> is_hex_hyphen (hd rest)) \<longrightarrow>
      match_thread (base @ ''/c/'' @ seg @ rest) = Some seg) \<and>
   (seg \<noteq> [] \<and> (\<forall>c\<in>set seg. is_hex_hyphen c) \<longrightarrow>
      match_thread (base @ ''/c/'' @ seg) = Some seg) \<and>
   match_thread ''https://chatgpt.com/c/abc-123'' = Some ''abc-123''"
proof -
  have from_url: "r_threadId x = match_thread (url_after pg)"
    if "snd (promptWithOptions cv pg os pr) = Inr x" for cv os pr x
    using that by (auto simp: flow_result split: if_splits sum.splits)
  have leftmost: "match_thread url = Some seg"
    if "url = pre @ ''/c/'' @ seg @ rest" and "seg \<noteq> []"
      and "\<forall>c\<in>set seg. is_hex_hyphen c" and "rest = [] \<or> \<not> is_hex_hyphen (hd rest)"
      and "\<forall>pre' post'. url = pre' @ ''/c/'' @ post' \<and> length pre' < length pre \<longrightarrow>
             post' = [] \<or> \<not> is_hex_hyphen (hd post')"
  proof -
    have "match_thread url = Some (takeWhile is_hex_hyphen (seg @ rest))"
    proof (rule match_thread_leftmost [OF that(1) _ _ that(5)])
      show "seg @ rest \<noteq> []" using that(2) by simp
      show "is_hex_hyphen (hd (seg @ rest))" using that(2,3) by (cases seg) simp_all
    qed
    then show ?thesis by (simp only: takeWhile_run [OF that(3,4)])
  qed
  have site: "match_thread (base @ ''/c/'' @ seg @ rest) = Some seg"
    if "seg \<noteq> []" and "\<forall>c\<in>set seg. is_hex_hyphen c"
      and "rest = [] \<or> \<not> is_hex_hyphen (hd rest)"
    using that by (rule match_thread_whole)
  have site': "match_thread (base @ ''/c/'' @ seg) = Some seg"
    if "seg \<noteq> []" and "\<forall>c\<in>set seg. is_hex_hyphen c"
    using match_thread_whole [OF that, of "[]"] by simp
  have ex: "match_thread ''https://chatgpt.com/c/abc-123'' = Some ''abc-123''"
    by (simp add: is_hex_hyphen_def)
  show ?thesis
    using from_url [of convert opts prompt r] from_url [of convert' opts' prompt' r']
      leftmost site site' ex match_thread_None [of url]
    by (intro conjI impI) (simp_all only:, blast+)
qed

text \<open>
  A request without a thread and a request that names another thread, on a page whose
  location ends in \<^verbatim>\<open>/c/abc-123\<close>: both results carry \<^verbatim>\<open>"abc-123"\<close>. A location with a
  query string behind the segment, and one with a longer path before \<^verbatim>\<open>/c/\<close>, yield the
  segment; the location of the start page yields null.
\<close>

theorem thread_id_from_location_witness:
  "url_after hello_page = ''https://chatgpt.com/c/abc-123'' \<and>
   snd (promptWithOptions text_converter hello_page
          \<lparr>reason = False, search = False, threadId = None\<rparr> ''Hi'') =
     Inr \<lparr>r_threadId = Some ''abc-123'', r_response = Some (utf16 ''Hello world'')\<rparr> \<and>
   snd (promptWithOptions text_converter hello_page
          \<lparr>reason = True, search = False, threadId = Some ''ffff-0000''\<rparr> ''Hi'') =
     Inr \<lparr>r_threadId = Some ''abc-123'', r_response = Some (utf16 ''Hello world'')\<rparr> \<and>
   match_thread (url_after hello_page) = Some ''abc-123'' \<and>
   match_thread (base @ ''/c/'' @ ''abc-123'' @ ''?model=x'') = Some ''abc-123'' \<and>
   match_thread ''https://chatgpt.com/g/g-1/c/abc-123?model=x'' = Some ''abc-123'' \<and>
   match_thread ''https://chatgpt.com/'' = None"
proof -
  have a: "url_after hello_page = ''https://chatgpt.com/c/abc-123''"
    by (simp add: hello_page_def)
  have b: "snd (promptWithOptions text_converter hello_page
          \<lparr>reason = False, search = False, threadId = None\<rparr> ''Hi'') =
     Inr \<lparr>r_threadId = Some ''abc-123'', r_response = Some (utf16 ''Hello world'')\<rparr>"
    by (rule flow_hello)
  have c: "snd (promptWithOptions text_converter hello_page
          \<lparr>reason = True, search = False, threadId = Some ''ffff-0000''\<rparr> ''Hi'') =
     Inr \<lparr>r_threadId = Some ''abc-123'', r_response = Some (utf16 ''Hello world'')\<rparr>"
    by (rule flow_hello)
  note t = thread_id_from_location [where convert = text_converter and pg = hello_page
      and opts = "\<lparr>reason = True, search = False, threadId = Some ''ffff-0000''\<rparr>"
      and prompt = "''Hi''"
      and r = "\<lparr>r_threadId = Some ''abc-123'', r_response = Some (utf16 ''Hello world'')\<rparr>"
      and seg = "''abc-123''" and rest = "''?model=x''"]
  have d: "match_thread (url_after hello_page) = Some ''abc-123''"
    using t [of _ _ _ _ "[]" "[]"] c by simp
  have s: "''abc-123'' \<noteq> [] \<and> (\<forall>c\<in>set ''abc-123''. is_hex_hyphen c) \<and>
      (''?model=x'' = [] \<or> \<not> is_hex_hyphen (hd ''?model=x''))"
    by (simp add: is_hex_hyphen_def)
  have e: "match_thread (base @ ''/c/'' @ ''abc-123'' @ ''?model=x'') = Some ''abc-123''"
    using t [of _ _ _ _ "[]" "[]"] s by blast
  have f: "match_thread ''https://chatgpt.com/g/g-1/c/abc-123?model=x'' = Some ''abc-123''"
    using t [where url = "''https://chatgpt.com/g/g-1/c/abc-123?model=x''"
        and pre = "''https://chatgpt.com/g/g-1''"] s gpt_url_no_earlier
    by simp
  have g: "match_thread ''https://chatgpt.com/'' = None"
    using t [where url = "''https://chatgpt.com/''"] root_url_no_occurrence by blast
  from a b c d e f g show ?thesis by blast
qed


text \<open>
  Claim C7. For every prompt, a flow that gets as far as the editor types exactly one
  text, the fixed instruction followed by the prompt as it was passed, nothing removed or
  changed; a flow that fails earlier types nothing.
\<close>

theorem submitted_text_is_prefixed_prompt:
  "typed (fst (promptWithOptions convert pg opts prompt)) =
     (if submits pg opts then [promptContext @ prompt] else [])"
proof (cases "submits pg opts")
  case True
  then show ?thesis
    by (simp add: flow_events [OF True] typed_append typed_stages split: sum.splits)
next
  case False
  then show ?thesis
    by (simp add: flow_events_early [OF False] typed_append typed_stages)
qed

text \<open>A prompt that itself contains a link is typed with the link.\<close>

theorem submitted_text_is_prefixed_prompt_witness:
  "typed (fst (promptWithOptions text_converter hello_page plain
                 ''Who won? Cite sources [1](https://example.org).'')) =
     [''return the response to the below prompt excluding all the sources with links mentioned in the response anywhere. Prompt as follows: Who won? Cite sources [1](https://example.org).'']"
  using submitted_text_is_prefixed_prompt [of text_converter hello_page plain
      "''Who won? Cite sources [1](https://example.org).''"]
  by (simp add: submits_plain promptContext_def)



text \<open>
  Claim C10, as amended. Let the flow reach the selection step with no article in the
  document, and let no article with the literal test identifier \<^verbatim>\<open>undefined\<close> and a
  \<^verbatim>\<open>div.markdown\<close> appear during the wait. Then \<^verbatim>\<open>ids.pop()\<close> is \<^verbatim>\<open>undefined\<close> without an
  error, the selector is \<^verbatim>\<open>article[data-testid="undefined"] div.markdown\<close>, it matches no
  element, and the flow fails with the timeout of the 30 s wait, having polled nothing.
\<close>

theorem no_container_times_out:
  assumes "submits pg opts"
    and "doc_at_select pg = []"
    and "\<forall>d\<in>set (docs_during_wait pg). query d (ArticleMarkdown ''undefined'') = None"
  shows "pop (article_ids (doc_at_select pg)) = Undefined \<and>
         mdSelector (pop (article_ids (doc_at_select pg))) = ArticleMarkdown ''undefined'' \<and>
         query (doc_at_select pg) (ArticleMarkdown ''undefined'') = None \<and>
         snd (promptWithOptions convert pg opts prompt) =
           Inl (MarkdownTimeout (ArticleMarkdown ''undefined'') 30000) \<and>
         queries (fst (promptWithOptions convert pg opts prompt)) = []"
  using assms(2) flow_timeout_queries [OF assms(1) select_no_article [OF assms(2,3)], of convert prompt]
  by (simp add: article_ids_def pop_def mdSelector_def)

text \<open>
  No article when they are listed; the articles of the conversation appear during the wait
  under their own test identifiers.
\<close>

theorem no_container_times_out_witness:
  "doc_at_select late_page = [] \<and>
   docs_during_wait late_page = [[], hello_doc 2] \<and>
   snd (promptWithOptions text_converter late_page plain ''Hi'') =
     Inl (MarkdownTimeout (ArticleMarkdown ''undefined'') 30000) \<and>
   queries (fst (promptWithOptions text_converter late_page plain ''Hi'')) = []"
proof -
  have a: "doc_at_select late_page = []" and b: "docs_during_wait late_page = [[], hello_doc 2]"
    by (simp_all add: late_page_def)
  have c: "\<forall>d\<in>set (docs_during_wait late_page). query d (ArticleMarkdown ''undefined'') = None"
    by (simp add: b hello_doc_def)
  show ?thesis
    using no_container_times_out [OF submits_plain(4) [of plain] a c, of text_converter "''Hi''"] a b
    by simp
qed

text \<open>
  The claim as stated fails on a page where an article with the test identifier
  \<^verbatim>\<open>undefined\<close> appears during the wait: the selector matches it, the loop polls it and
  the flow returns its text.
\<close>

theorem undefined_testid_counterexample:
  "doc_at_select undefined_page = [] \<and>
   docs_during_wait undefined_page =
     [[], [\<lparr>testid = Some ''undefined'', markdown = Some (utf16 ''Hi'')\<rparr>]] \<and>
   snd (promptWithOptions text_converter undefined_page plain ''Hi'') =
     Inr \<lparr>r_threadId = None, r_response = Some (utf16 ''Hi'')\<rparr>"
  by (simp add: flow_result submits_plain select_undefined stabilize_undefined url_plain
      text_converter_def)
    (simp add: undefined_page_def undefined_doc_def)

end
